theory Spec2Isabelle
  imports Complex_Main "HOL-Library.Word" "HOL-Library.Sublist"
begin

section \<open>Python values, exceptions and strings\<close>

text \<open>
  The service of \<^verbatim>\<open>crawl4ai-service/semantic_analysis.py\<close> receives untyped Python
  values: it tests \<^verbatim>\<open>isinstance(text, str)\<close> and \<^verbatim>\<open>isinstance(chunk, dict)\<close> itself.
  A value is therefore one of the shapes those tests tell apart. A dict is an association
  list (a key is looked up with \<open>map_of\<close>). Characters are code points below 256 and
  \<open>length\<close> is Python's \<^verbatim>\<open>len\<close>. Floats (timestamps, similarities, scores) are
  real numbers: rounding of the float arithmetic is outside the model.
\<close>

datatype pyval = PNone | PInt int | PStr string | PDict "(string \<times> pyval) list"

datatype exn = Exception string | IndexError string | ValueError string | TypeError string

fun str_exn :: "exn \<Rightarrow> string" where
  "str_exn (Exception m) = m"
| "str_exn (IndexError m) = m"
| "str_exn (ValueError m) = m"
| "str_exn (TypeError m) = m"

text \<open>\<^verbatim>\<open>str.isspace\<close> on the code points below 256.\<close>

definition isspace :: "char \<Rightarrow> bool" where
  "isspace c = ((of_char c :: nat) \<in> {9, 10, 11, 12, 13, 28, 29, 30, 31, 32, 133, 160})"

text \<open>\<^verbatim>\<open>s.strip()\<close>: white space removed at both ends.\<close>

definition strip :: "string \<Rightarrow> string" where
  "strip s = rev (dropWhile isspace (rev (dropWhile isspace s)))"

text \<open>Decimal digits of a natural number, as \<^verbatim>\<open>str(n)\<close> prints them.\<close>

function str_nat :: "nat \<Rightarrow> string" where
  "str_nat n = (if n < 10 then [char_of (48 + n)] else str_nat (n div 10) @ [char_of (48 + n mod 10)])"
  by pat_completeness auto
termination
  by (relation "measure (\<lambda>n. n)") auto

declare str_nat.simps [simp del]

section \<open>RateLimiter\<close>

text \<open>
  \<^verbatim>\<open>self.calls\<close> is a \<^verbatim>\<open>defaultdict(list)\<close>: every identifier has a list of
  timestamps, empty until a call is recorded. \<^verbatim>\<open>time.time()\<close> is the argument \<open>now\<close>.
\<close>

record rate_limiter =
  max_calls :: int
  window :: int
  calls :: "string \<Rightarrow> real list"

definition is_allowed :: "rate_limiter \<Rightarrow> string \<Rightarrow> real \<Rightarrow> bool \<times> rate_limiter" where
  "is_allowed rl identifier now =
     (let kept = filter (\<lambda>call_time. now - call_time < real_of_int (window rl)) (calls rl identifier)
      in if int (length kept) \<ge> max_calls rl
         then (False, rl\<lparr>calls := (calls rl)(identifier := kept)\<rparr>)
         else (True, rl\<lparr>calls := (calls rl)(identifier := kept @ [now])\<rparr>))"

text \<open>A run of consecutive checks for one identifier, at the given times.\<close>

fun is_allowed_seq :: "rate_limiter \<Rightarrow> string \<Rightarrow> real list \<Rightarrow> bool list \<times> rate_limiter" where
  "is_allowed_seq rl identifier [] = ([], rl)"
| "is_allowed_seq rl identifier (now # nows) =
     (let (ok, rl1) = is_allowed rl identifier now;
          (oks, rl2) = is_allowed_seq rl1 identifier nows
      in (ok # oks, rl2))"

section \<open>SemanticAnalysisService: state and collaborators\<close>

text \<open>
  The collaborators the service calls but does not define: loading the
  \<^verbatim>\<open>SentenceTransformer\<close> (the \<open>k\<close>-th attempt of the process fails with a message, or
  succeeds), \<^verbatim>\<open>model.encode\<close> (its \<open>k\<close>-th invocation fails with a message, or returns one
  vector for each text, in order), Python's \<^verbatim>\<open>hash\<close> of a tuple of strings, a
  64-bit integer, and numpy's \<^verbatim>\<open>np.argsort\<close> of a row of scores.
\<close>

record world =
  load_error :: "nat \<Rightarrow> string option"
  encode_error :: "nat \<Rightarrow> string option"
  embed :: "string \<Rightarrow> real list"
  hash_tuple :: "string list \<Rightarrow> 64 word"
  argsort :: "real list \<Rightarrow> nat list"

text \<open>
  The fields of the service. \<^verbatim>\<open>self.model\<close> is \<^verbatim>\<open>None\<close> or the loaded model;
  \<^verbatim>\<open>self._cache\<close> is a dict, whose keys keep their insertion order. Calls are modelled
  one after the other, so \<^verbatim>\<open>self._loading\<close> is false whenever a call starts. The two
  counters are not fields of the source: they count the load attempts and the
  invocations of \<^verbatim>\<open>model.encode\<close> made so far.
\<close>

record service =
  model_name :: string
  model_loaded :: bool
  limiter :: rate_limiter
  cache :: "(64 word \<times> real list list) list"
  load_calls :: nat
  encode_calls :: nat

text \<open>\<^verbatim>\<open>d[k] = v\<close> and \<^verbatim>\<open>del d[k]\<close> on an insertion-ordered dict.\<close>

fun dict_set :: "'k \<Rightarrow> 'v \<Rightarrow> ('k \<times> 'v) list \<Rightarrow> ('k \<times> 'v) list" where
  "dict_set k v [] = [(k, v)]"
| "dict_set k v (kv # d) = (if fst kv = k then (k, v) # d else kv # dict_set k v d)"

definition dict_del :: "'k \<Rightarrow> ('k \<times> 'v) list \<Rightarrow> ('k \<times> 'v) list" where
  "dict_del k d = filter (\<lambda>kv. fst kv \<noteq> k) d"

text \<open>
  \<^verbatim>\<open>oldest_keys = list(self._cache.keys())[:100]\<close>, then \<^verbatim>\<open>del self._cache[key]\<close> for
  each of them.
\<close>

definition evict_oldest :: "('k \<times> 'v) list \<Rightarrow> ('k \<times> 'v) list" where
  "evict_oldest d = fold dict_del (take 100 (map fst d)) d"

text \<open>
  \<^verbatim>\<open>initialize\<close>: nothing to do when the model is loaded; otherwise up to \<open>retry_count\<close>
  attempts, and after the last failure \<^verbatim>\<open>raise last_error\<close> (with no attempt at all,
  \<^verbatim>\<open>raise None\<close> is a TypeError).
\<close>

fun try_load :: "world \<Rightarrow> nat \<Rightarrow> string option \<Rightarrow> service \<Rightarrow> (exn + unit) \<times> service" where
  "try_load w 0 last_error st =
     (case last_error of
        None \<Rightarrow> (Inl (TypeError ''exceptions must derive from BaseException''), st)
      | Some m \<Rightarrow> (Inl (Exception m), st))"
| "try_load w (Suc n) last_error st =
     (case load_error w (load_calls st) of
        None \<Rightarrow> (Inr (), st\<lparr>model_loaded := True, load_calls := Suc (load_calls st)\<rparr>)
      | Some m \<Rightarrow> try_load w n (Some m) (st\<lparr>load_calls := Suc (load_calls st)\<rparr>))"

definition initialize :: "world \<Rightarrow> nat \<Rightarrow> service \<Rightarrow> (exn + unit) \<times> service" where
  "initialize w retry_count st =
     (if model_loaded st then (Inr (), st) else try_load w retry_count None st)"

text \<open>The cleaning loop of \<^verbatim>\<open>encode_texts\<close>.\<close>

fun clean_texts :: "pyval list \<Rightarrow> string list" where
  "clean_texts [] = []"
| "clean_texts (PStr s # texts) =
     (if length (strip s) > 0 then take 1000 (strip s) # clean_texts texts else clean_texts texts)"
| "clean_texts (v # texts) = clean_texts texts"

definition cache_key :: "world \<Rightarrow> pyval list \<Rightarrow> 64 word" where
  "cache_key w texts = hash_tuple w (clean_texts texts)"

text \<open>
  The \<^verbatim>\<open>try\<close> block of \<^verbatim>\<open>encode_texts\<close>: the model is invoked, the result stored
  (when caching is on) and the cache trimmed; a failure of the model is wrapped.
\<close>

definition encode_miss :: "world \<Rightarrow> service \<Rightarrow> string list \<Rightarrow> bool \<Rightarrow> (exn + real list list) \<times> service" where
  "encode_miss w st cleaned_texts use_cache =
     (let st1 = st\<lparr>encode_calls := Suc (encode_calls st)\<rparr>
      in case encode_error w (encode_calls st) of
           Some m \<Rightarrow> (Inl (Exception (''Embedding generation failed: '' @ m)), st1)
         | None \<Rightarrow>
             (let embeddings = map (embed w) cleaned_texts
              in if use_cache
                 then (let c1 = dict_set (hash_tuple w cleaned_texts) embeddings (cache st1);
                           c2 = (if length c1 > 1000 then evict_oldest c1 else c1)
                       in (Inr embeddings, st1\<lparr>cache := c2\<rparr>))
                 else (Inr embeddings, st1)))"

definition encode_texts ::
  "world \<Rightarrow> service \<Rightarrow> pyval list \<Rightarrow> bool \<Rightarrow> string \<Rightarrow> real \<Rightarrow> (exn + real list list) \<times> service" where
  "encode_texts w st texts use_cache client_id now =
     (let (ok, rl) = is_allowed (limiter st) client_id now;
          st1 = st\<lparr>limiter := rl\<rparr>
      in if \<not> ok then (Inl (Exception ''Rate limit exceeded. Please try again later.''), st1)
         else (case initialize w 3 st1 of
                 (Inl e, st2) \<Rightarrow> (Inl e, st2)
               | (Inr u, st2) \<Rightarrow>
                   if texts = [] then (Inr [], st2)
                   else (let cleaned_texts = clean_texts texts
                         in if cleaned_texts = [] then (Inr [], st2)
                            else if use_cache
                              then (case map_of (cache st2) (hash_tuple w cleaned_texts) of
                                      Some cached \<Rightarrow> (Inr cached, st2)
                                    | None \<Rightarrow> encode_miss w st2 cleaned_texts use_cache)
                              else encode_miss w st2 cleaned_texts use_cache)))"

section \<open>Similarity\<close>

text \<open>
  An embedding batch is a list of rows; \<^verbatim>\<open>np.array([])\<close> is the empty batch and
  \<^verbatim>\<open>.size\<close> counts the numbers in it.
\<close>

definition nd_size :: "real list list \<Rightarrow> nat" where
  "nd_size a = sum_list (map length a)"

definition dot :: "real list \<Rightarrow> real list \<Rightarrow> real" where
  "dot x y = sum_list (map2 (\<lambda>a b. a * b) x y)"

definition norm2 :: "real list \<Rightarrow> real" where
  "norm2 x = sqrt (dot x x)"

text \<open>The row normalisation of scikit-learn: a row of norm zero is left as it is.\<close>

definition normalize :: "real list \<Rightarrow> real list" where
  "normalize x = (if norm2 x = 0 then x else map (\<lambda>a. a / norm2 x) x)"

text \<open>
  \<^verbatim>\<open>sklearn.metrics.pairwise.cosine_similarity(X, Y)\<close>: the dot products of the
  normalised rows, one row of the result for each row of \<open>X\<close>; rows of unequal
  dimension are refused with a ValueError.
\<close>

definition cosine_similarity :: "real list list \<Rightarrow> real list list \<Rightarrow> exn + real list list" where
  "cosine_similarity X Y =
     (if list_all (\<lambda>x. list_all (\<lambda>y. length x = length y) (X @ Y)) (X @ Y)
      then Inr (map (\<lambda>x. map (\<lambda>y. dot (normalize x) (normalize y)) Y) X)
      else Inl (ValueError ''Incompatible dimension for X and Y matrices''))"

definition calculate_similarity :: "real list list \<Rightarrow> real list list \<Rightarrow> exn + real list list" where
  "calculate_similarity query_embeddings content_embeddings =
     (if nd_size query_embeddings = 0 \<or> nd_size content_embeddings = 0 then Inr []
      else cosine_similarity query_embeddings content_embeddings)"

text \<open>\<^verbatim>\<open>np.max\<close> (a ValueError on an empty row) and \<^verbatim>\<open>np.argmax\<close> (the first index of the maximum).\<close>

definition np_max :: "real list \<Rightarrow> exn + real" where
  "np_max row =
     (case row of
        [] \<Rightarrow> Inl (ValueError ''zero-size array to reduction operation maximum which has no identity'')
      | x # xs \<Rightarrow> Inr (fold max xs x))"

definition np_argmax :: "real list \<Rightarrow> nat" where
  "np_argmax row = length (takeWhile (\<lambda>x. x < fold max row (hd row)) row)"

text \<open>
  \<^verbatim>\<open>np.argsort\<close>, called with its default kind, returns the indices of the row in
  ascending order of score. That sort is not stable: numpy leaves open in which order
  the indices of equal scores come, and the order differs between its builds. The
  function is therefore the field \<open>argsort\<close> of the collaborators, and \<open>argsort_ok\<close> is
  all that is known of it: the indices of the row, each once, scores ascending.
\<close>

definition argsort_ok :: "(real list \<Rightarrow> nat list) \<Rightarrow> bool" where
  "argsort_ok f =
     (\<forall>row. distinct (f row) \<and> set (f row) = {0..<length row} \<and> sorted (map (\<lambda>i. row ! i) (f row)))"

section \<open>The relevance analysis\<close>

record metadata =
  type_md :: pyval
  original_text :: string
  length_md :: nat

record match =
  content :: string
  score :: real
  type_match :: pyval

record verdict =
  query :: pyval
  is_answered :: bool
  confidence :: real
  max_similarity :: real
  best_match :: string
  top_matches :: "match list"

text \<open>
  The report is a Python dict; the keys \<^verbatim>\<open>queries_answered\<close>, \<^verbatim>\<open>total_queries\<close>,
  \<^verbatim>\<open>analysis_metadata\<close> and \<^verbatim>\<open>error\<close> are present on some return paths only.
\<close>

record report =
  overall_score :: real
  query_analysis :: "verdict list"
  content_coverage :: real
  recommendations :: "string list"
  queries_answered :: "nat option"
  total_queries :: "nat option"
  analysis_metadata :: "(nat \<times> nat \<times> string) option"
  error :: "string option"

definition zero_report :: "string list \<Rightarrow> report" where
  "zero_report recs =
     \<lparr>overall_score = 0, query_analysis = [], content_coverage = 0, recommendations = recs,
      queries_answered = None, total_queries = None, analysis_metadata = None, error = None\<rparr>"

text \<open>The loop over \<^verbatim>\<open>content_chunks\<close>: the texts to embed and what is kept of each chunk.\<close>

fun extract_content :: "pyval list \<Rightarrow> string list \<times> metadata list" where
  "extract_content [] = ([], [])"
| "extract_content (PDict chunk # chunks) =
     (let (content_texts, content_metadata) = extract_content chunks
      in case map_of chunk ''text'' of
           Some (PStr text) \<Rightarrow>
             if length (strip text) > 10
             then (strip text # content_texts,
                   \<lparr>type_md = (case map_of chunk ''type'' of Some v \<Rightarrow> v | None \<Rightarrow> PStr ''content''),
                    original_text = (if length text > 200 then take 200 text @ ''...'' else text),
                    length_md = length text\<rparr> # content_metadata)
             else (content_texts, content_metadata)
         | _ \<Rightarrow> (content_texts, content_metadata))"
| "extract_content (v # chunks) = extract_content chunks"

text \<open>The loop over \<^verbatim>\<open>top_indices\<close>.\<close>

fun collect_matches :: "real list \<Rightarrow> metadata list \<Rightarrow> nat list \<Rightarrow> exn + match list" where
  "collect_matches row content_metadata [] = Inr []"
| "collect_matches row content_metadata (idx # idxs) =
     (if row ! idx > 1 / 10
      then (if idx < length content_metadata
            then (case collect_matches row content_metadata idxs of
                    Inl e \<Rightarrow> Inl e
                  | Inr ms \<Rightarrow>
                      Inr (\<lparr>content = original_text (content_metadata ! idx), score = row ! idx,
                            type_match = type_md (content_metadata ! idx)\<rparr> # ms))
            else Inl (IndexError ''list index out of range''))
      else collect_matches row content_metadata idxs)"

text \<open>\<^verbatim>\<open>np.argsort(query_similarities)[-3:][::-1]\<close>\<close>

definition top_indices :: "world \<Rightarrow> real list \<Rightarrow> nat list" where
  "top_indices w row = rev (drop (length (argsort w row) - 3) (argsort w row))"

text \<open>The body of the loop over the queries, for one query and its row.\<close>

definition analyze_query :: "world \<Rightarrow> real list \<Rightarrow> metadata list \<Rightarrow> pyval \<Rightarrow> exn + verdict" where
  "analyze_query w query_similarities content_metadata q =
     (case np_max query_similarities of
        Inl e \<Rightarrow> Inl e
      | Inr max_sim \<Rightarrow>
          (let best_match_idx = np_argmax query_similarities
           in case collect_matches query_similarities content_metadata (top_indices w query_similarities) of
                Inl e \<Rightarrow> Inl e
              | Inr matches \<Rightarrow>
                  Inr \<lparr>query = q, is_answered = (max_sim > 2 / 5), confidence = min (max_sim * 2) 1,
                       max_similarity = max_sim,
                       best_match = (if length content_metadata > best_match_idx
                                     then original_text (content_metadata ! best_match_idx) else []),
                       top_matches = matches\<rparr>))"

text \<open>
  \<^verbatim>\<open>for i, query in enumerate(queries)\<close>: \<^verbatim>\<open>similarity_matrix[i]\<close> raises an IndexError
  when the matrix has no row \<open>i\<close>.
\<close>

fun analyze_queries ::
  "world \<Rightarrow> real list list \<Rightarrow> metadata list \<Rightarrow> nat \<Rightarrow> pyval list \<Rightarrow> exn + verdict list" where
  "analyze_queries w similarity_matrix content_metadata i [] = Inr []"
| "analyze_queries w similarity_matrix content_metadata i (q # qs) =
     (if i < length similarity_matrix
      then (case analyze_query w (similarity_matrix ! i) content_metadata q of
              Inl e \<Rightarrow> Inl e
            | Inr v \<Rightarrow>
                (case analyze_queries w similarity_matrix content_metadata (Suc i) qs of
                   Inl e \<Rightarrow> Inl e
                 | Inr vs \<Rightarrow> Inr (v # vs)))
      else Inl (IndexError (''index '' @ str_nat i @ '' is out of bounds for axis 0 with size ''
                            @ str_nat (length similarity_matrix))))"

text \<open>
  \<^verbatim>\<open>round(x, 2)\<close> and the format \<^verbatim>\<open>:.1f\<close>, on real numbers: to the nearest, a tie to
  the even neighbour.
\<close>

definition round_half_even :: "real \<Rightarrow> int" where
  "round_half_even x =
     (let f = \<lfloor>x\<rfloor>
      in if x - of_int f < 1 / 2 then f
         else if x - of_int f > 1 / 2 then f + 1
         else if even f then f else f + 1)"

definition round2 :: "real \<Rightarrow> real" where
  "round2 x = of_int (round_half_even (x * 100)) / 100"

definition fmt_1f :: "real \<Rightarrow> string" where
  "fmt_1f x =
     (let r = round_half_even (x * 10)
      in (if r < 0 then ''-'' else []) @ str_nat (nat \<bar>r\<bar> div 10) @ ''.'' @ str_nat (nat \<bar>r\<bar> mod 10))"

fun join :: "string \<Rightarrow> string list \<Rightarrow> string" where
  "join sep [] = []"
| "join sep [s] = s"
| "join sep (s # t # ss) = s @ sep @ join sep (t # ss)"

text \<open>\<^verbatim>\<open>q['query'][:50]\<close>: only a string can be sliced.\<close>

fun query_preview :: "pyval \<Rightarrow> exn + string" where
  "query_preview (PStr s) = Inr (take 50 s)"
| "query_preview v = Inl (TypeError ''object is not subscriptable'')"

fun query_previews :: "pyval list \<Rightarrow> exn + string list" where
  "query_previews [] = Inr []"
| "query_previews (v # vs) =
     (case query_preview v of
        Inl e \<Rightarrow> Inl e
      | Inr s \<Rightarrow> (case query_previews vs of Inl e \<Rightarrow> Inl e | Inr ss \<Rightarrow> Inr (s # ss)))"

definition generate_recommendations :: "verdict list \<Rightarrow> real \<Rightarrow> exn + string list" where
  "generate_recommendations qa coverage =
     (let unanswered_queries = filter (\<lambda>v. \<not> is_answered v) qa;
          low_confidence_queries = filter (\<lambda>v. is_answered v \<and> confidence v < 3 / 5) qa;
          r1 = (if coverage < 50
                then [''Low content coverage ('' @ fmt_1f coverage
                      @ ''%). Add more comprehensive content addressing user questions.'']
                else []);
          r3 = (if length low_confidence_queries > 0
                then [str_nat (length low_confidence_queries) @ '' queries have weak matches. ''
                      @ ''Improve content clarity and directness for better answer engine optimization.'']
                else []);
          r4 = (if coverage \<ge> 80
                then [''Excellent content coverage! Consider adding FAQ schema markup for better AEO performance.'']
                else if coverage \<ge> 60
                then [''Good content coverage. Focus on improving answer clarity and adding structured data.'']
                else [])
      in if length unanswered_queries > 0
         then (case query_previews (map query (take 3 unanswered_queries)) of
                 Inl e \<Rightarrow> Inl e
               | Inr previews \<Rightarrow>
                   Inr (r1 @ [str_nat (length unanswered_queries) @ '' queries have no relevant content. ''
                              @ ''Consider adding FAQ sections or detailed explanations for: ''
                              @ join '', '' previews] @ r3 @ r4))
         else Inr (r1 @ r3 @ r4))"

text \<open>
  The \<^verbatim>\<open>try\<close> block of \<^verbatim>\<open>analyze_content_relevance\<close>. The two calls of
  \<^verbatim>\<open>encode_texts\<close> read the clock at \<open>now1\<close> and \<open>now2\<close>.
\<close>

definition analyze_try ::
  "world \<Rightarrow> service \<Rightarrow> pyval list \<Rightarrow> string list \<Rightarrow> metadata list \<Rightarrow> string \<Rightarrow> real \<Rightarrow> real
     \<Rightarrow> (exn + report) \<times> service" where
  "analyze_try w st queries content_texts content_metadata client_id now1 now2 =
     (case encode_texts w st queries True client_id now1 of
        (Inl e, st1) \<Rightarrow> (Inl e, st1)
      | (Inr query_embeddings, st1) \<Rightarrow>
          (case encode_texts w st1 (map PStr content_texts) True client_id now2 of
             (Inl e, st2) \<Rightarrow> (Inl e, st2)
           | (Inr content_embeddings, st2) \<Rightarrow>
               if nd_size query_embeddings = 0 \<or> nd_size content_embeddings = 0
               then (Inr (zero_report [''Failed to generate embeddings'']), st2)
               else (case calculate_similarity query_embeddings content_embeddings of
                       Inl e \<Rightarrow> (Inl e, st2)
                     | Inr similarity_matrix \<Rightarrow>
                         (case analyze_queries w similarity_matrix content_metadata 0 queries of
                            Inl e \<Rightarrow> (Inl e, st2)
                          | Inr qa \<Rightarrow>
                              (let total_score = sum_list (map confidence qa);
                                   overall = total_score / real (length queries) * 100;
                                   answered_count = length (filter is_answered qa);
                                   coverage = real answered_count / real (length queries) * 100
                               in case generate_recommendations qa coverage of
                                    Inl e \<Rightarrow> (Inl e, st2)
                                  | Inr recs \<Rightarrow>
                                      (Inr \<lparr>overall_score = round2 overall, query_analysis = qa,
                                            content_coverage = round2 coverage, recommendations = recs,
                                            queries_answered = Some answered_count,
                                            total_queries = Some (length queries),
                                            analysis_metadata =
                                              Some (length queries, length content_texts, model_name st2),
                                            error = None\<rparr>, st2))))))"

text \<open>
  \<^verbatim>\<open>analyze_content_relevance\<close>. The result is a sum so that an exception leaving the
  function would be a value \<open>Inl\<close>; \<^verbatim>\<open>except Exception\<close> turns every exception of the
  \<^verbatim>\<open>try\<close> block into a report.
\<close>

definition error_report :: "exn \<Rightarrow> report" where
  "error_report e =
     (zero_report [''Analysis failed: '' @ str_exn e])\<lparr>error := Some (str_exn e)\<rparr>"

definition analyze_content_relevance ::
  "world \<Rightarrow> service \<Rightarrow> pyval list \<Rightarrow> pyval list \<Rightarrow> string \<Rightarrow> real \<Rightarrow> real \<Rightarrow> (exn + report) \<times> service" where
  "analyze_content_relevance w st queries content_chunks client_id now1 now2 =
     (if queries = [] \<or> content_chunks = [] then (Inr (zero_report []), st)
      else (let (content_texts, content_metadata) = extract_content content_chunks
            in if content_texts = []
               then (Inr (zero_report [''No meaningful content found for analysis'']), st)
               else (case analyze_try w st queries content_texts content_metadata client_id now1 now2 of
                       (Inl e, st1) \<Rightarrow> (Inr (error_report e), st1)
                     | (Inr r, st1) \<Rightarrow> (Inr r, st1))))"

section \<open>The words of the claims\<close>

text \<open>
  What is kept of a chunk: its text (the string under \<^verbatim>\<open>'text'\<close> of a dict, if there is
  one), its kind (\<^verbatim>\<open>chunk.get('type', 'content')\<close>), the preview of its text, and
  whether it passes the filter of the analyzer.
\<close>

fun text_of :: "pyval \<Rightarrow> string option" where
  "text_of (PDict chunk) = (case map_of chunk ''text'' of Some (PStr text) \<Rightarrow> Some text | _ \<Rightarrow> None)"
| "text_of v = None"

fun kind_of :: "pyval \<Rightarrow> pyval" where
  "kind_of (PDict chunk) = (case map_of chunk ''type'' of Some v \<Rightarrow> v | None \<Rightarrow> PStr ''content'')"
| "kind_of v = PStr ''content''"

definition preview :: "string \<Rightarrow> string" where
  "preview text = (if length text > 200 then take 200 text @ ''...'' else text)"

definition usable :: "pyval \<Rightarrow> bool" where
  "usable c = (case text_of c of Some text \<Rightarrow> 10 < length (strip text) | None \<Rightarrow> False)"

text \<open>A run of calls of \<^verbatim>\<open>encode_texts\<close>: the texts, \<^verbatim>\<open>use_cache\<close>, the client and the time of each.\<close>

fun encode_seq :: "world \<Rightarrow> service \<Rightarrow> (pyval list \<times> bool \<times> string \<times> real) list \<Rightarrow> service" where
  "encode_seq w st [] = st"
| "encode_seq w st ((texts, use_cache, client_id, now) # cs) =
     encode_seq w (snd (encode_texts w st texts use_cache client_id now)) cs"

text \<open>The cache entry of a batch: its key and the vectors of its cleaned texts.\<close>

definition entry_of :: "world \<Rightarrow> pyval list \<Rightarrow> 64 word \<times> real list list" where
  "entry_of w texts = (cache_key w texts, map (embed w) (clean_texts texts))"

text \<open>The outcome of \<^verbatim>\<open>initialize\<close> in a call of \<^verbatim>\<open>encode_texts\<close>, after the rate-limit check.\<close>

definition init_result :: "world \<Rightarrow> service \<Rightarrow> string \<Rightarrow> real \<Rightarrow> (exn + unit) \<times> service" where
  "init_result w st cid now = initialize w 3 (st\<lparr>limiter := snd (is_allowed (limiter st) cid now)\<rparr>)"

text \<open>
  A query that survives the cleaning of \<^verbatim>\<open>encode_texts\<close>, the string of a query, and the
  row of a query: its similarities with the rows of the content embeddings.
\<close>

fun valid_query :: "pyval \<Rightarrow> bool" where
  "valid_query (PStr s) = (strip s \<noteq> [])"
| "valid_query v = False"

fun str_of :: "pyval \<Rightarrow> string" where
  "str_of (PStr s) = s"
| "str_of v = []"

definition own_row :: "world \<Rightarrow> pyval \<Rightarrow> real list list \<Rightarrow> real list" where
  "own_row w q content_embeddings =
     map (\<lambda>y. dot (normalize (embed w (take 1000 (strip (str_of q))))) (normalize y)) content_embeddings"

text \<open>
  The row of a cleaned text, and the IndexError of \<^verbatim>\<open>similarity_matrix[n]\<close> on a matrix
  of \<open>n\<close> rows.
\<close>

definition text_row :: "world \<Rightarrow> string \<Rightarrow> real list list \<Rightarrow> real list" where
  "text_row w t content_embeddings =
     map (\<lambda>y. dot (normalize (embed w t)) (normalize y)) content_embeddings"

definition row_missing :: "nat \<Rightarrow> exn" where
  "row_missing n =
     IndexError (''index '' @ str_nat n @ '' is out of bounds for axis 0 with size '' @ str_nat n)"

section \<open>Concrete inputs\<close>

text \<open>A limiter of two calls in ten seconds.\<close>

definition limiter0 :: rate_limiter where
  "limiter0 = \<lparr>max_calls = 2, window = 10, calls = (\<lambda>identifier. [])\<rparr>"

text \<open>
  Two sorts that \<^verbatim>\<open>np.argsort\<close> may be: an insertion sort, which keeps the indices of
  equal scores in ascending order, and a sort that returns them in descending order.
\<close>

definition stable_argsort :: "real list \<Rightarrow> nat list" where
  "stable_argsort row = sort_key (\<lambda>i. row ! i) [0..<length row]"

definition reversing_argsort :: "real list \<Rightarrow> nat list" where
  "reversing_argsort row = rev (sort_key (\<lambda>i. - (row ! i)) [0..<length row])"

text \<open>
  Collaborators that never fail: the model maps every text to the same vector, the
  hash of a batch is the total length of its texts, and the sort is the insertion
  sort. The service is as \<^verbatim>\<open>__init__\<close> leaves it, with the default limits.
\<close>

definition world0 :: world where
  "world0 = \<lparr>load_error = (\<lambda>k. None), encode_error = (\<lambda>k. None),
             embed = (\<lambda>s. [1, 0]),
             hash_tuple = (\<lambda>ts. of_nat (sum_list (map length ts))),
             argsort = stable_argsort\<rparr>"

definition service0 :: service where
  "service0 = \<lparr>model_name = ''sentence-transformers/all-MiniLM-L6-v2'', model_loaded = False,
     limiter = \<lparr>max_calls = 1000, window = 3600, calls = (\<lambda>identifier. [])\<rparr>,
     cache = [], load_calls = 0, encode_calls = 0\<rparr>"

definition chunk0 :: pyval where
  "chunk0 = PDict [(''text'', PStr ''X is a protocol for Y.''), (''type'', PStr ''paragraph'')]"

text \<open>A service whose limiter admits no call, and a model whose every invocation fails.\<close>

definition service_denied :: service where
  "service_denied = service0\<lparr>limiter := \<lparr>max_calls = 0, window = 3600, calls = (\<lambda>identifier. [])\<rparr>\<rparr>"

definition world_failing :: world where
  "world_failing = world0\<lparr>encode_error := (\<lambda>k. Some ''CUDA out of memory'')\<rparr>"

text \<open>A service with a loaded model and one cached batch, under the key of \<^verbatim>\<open>What is X?\<close>.\<close>

definition service_cached :: service where
  "service_cached = service0\<lparr>model_loaded := True, cache := [(10, [[1, 0]])]\<rparr>"

text \<open>
  Embeddings with cosine similarity exactly \<open>2 / 5\<close>, and \<open>- 3 / 5\<close>, between the query
  \<^verbatim>\<open>What is X?\<close> and every other text.
\<close>

definition world_boundary :: world where
  "world_boundary = world0\<lparr>embed := (\<lambda>s. if s = ''What is X?'' then [1, 0, 0, 0] else [2, 4, 2, 1])\<rparr>"

definition world_negative :: world where
  "world_negative = world0\<lparr>embed := (\<lambda>s. if s = ''What is X?'' then [1, 0] else [- 3, 4])\<rparr>"

text \<open>
  Embeddings with cosine similarity \<open>3 / 5\<close> between \<^verbatim>\<open>What is X?\<close> and every other text,
  and \<open>4 / 5\<close> between \<^verbatim>\<open>Why Y?\<close> and every other text.
\<close>

definition world_two :: world where
  "world_two = world0\<lparr>embed := (\<lambda>s. if s = ''What is X?'' then [1, 0]
                                    else if s = ''Why Y?'' then [0, 1] else [3, 4])\<rparr>"

text \<open>The collaborators of \<open>world0\<close> with the other sort, and a chunk of 250 characters.\<close>

definition world_reversing :: world where
  "world_reversing = world0\<lparr>argsort := reversing_argsort\<rparr>"

definition chunk_long :: pyval where
  "chunk_long = PDict [(''text'', PStr (replicate 250 CHR ''a'')), (''type'', PStr ''paragraph'')]"

text \<open>Four chunks with the same text, told apart by their kind.\<close>

definition chunks4 :: "pyval list" where
  "chunks4 =
     [PDict [(''text'', PStr ''X is a protocol for Y.''), (''type'', PStr ''heading'')],
      PDict [(''text'', PStr ''X is a protocol for Y.''), (''type'', PStr ''paragraph'')],
      PDict [(''text'', PStr ''X is a protocol for Y.''), (''type'', PStr ''faq'')],
      PDict [(''text'', PStr ''X is a protocol for Y.''), (''type'', PStr ''other'')]]"

text \<open>A service whose cache holds 1000 entries, under the keys 11 to 1010.\<close>

definition full_cache :: "(64 word \<times> real list list) list" where
  "full_cache = map (\<lambda>i. (word_of_nat i, [[0]])) [11..<1011]"

definition service_full :: service where
  "service_full = service0\<lparr>model_loaded := True, cache := full_cache\<rparr>"

section \<open>The rate limiter: admission\<close>

lemma is_allowed_fst:
  "fst (is_allowed rl identifier now) =
     (int (length (filter (\<lambda>t. now - t < real_of_int (window rl)) (calls rl identifier))) < max_calls rl)"
  by (auto simp: is_allowed_def Let_def)


lemma is_allowed_calls:
  "calls (snd (is_allowed rl i now)) i =
     (if fst (is_allowed rl i now)
      then filter (\<lambda>t. now - t < real_of_int (window rl)) (calls rl i) @ [now]
      else filter (\<lambda>t. now - t < real_of_int (window rl)) (calls rl i))"
  by (auto simp: is_allowed_def Let_def)

lemma is_allowed_frame:
  "max_calls (snd (is_allowed rl i now)) = max_calls rl"
  "window (snd (is_allowed rl i now)) = window rl"
  "j \<noteq> i \<Longrightarrow> calls (snd (is_allowed rl i now)) j = calls rl j"
  by (auto simp: is_allowed_def Let_def)

lemma is_allowed_seq_frame:
  "max_calls (snd (is_allowed_seq rl i nows)) = max_calls rl \<and>
   window (snd (is_allowed_seq rl i nows)) = window rl"
proof (induction nows arbitrary: rl)
  case Nil
  show ?case by simp
next
  case (Cons n nows)
  show ?case
    using Cons.IH [of "snd (is_allowed rl i n)"]
    by (simp add: split_beta Let_def is_allowed_frame)
qed

lemma filter_window_absorb:
  fixes n T :: real
  assumes "n \<le> T"
  shows "filter (\<lambda>t. T - t < w) (filter (\<lambda>t. n - t < w) xs) = filter (\<lambda>t. T - t < w) xs"
proof -
  have "\<And>t. T - t < w \<Longrightarrow> n - t < w" using assms by linarith
  then show ?thesis by (induction xs) auto
qed

lemma is_allowed_seq_count:
  assumes "\<forall>n\<in>set nows. n \<le> T \<and> T - n < real_of_int (window rl)"
  shows "length (filter (\<lambda>t. T - t < real_of_int (window rl)) (calls (snd (is_allowed_seq rl i nows)) i)) =
         length (filter (\<lambda>t. T - t < real_of_int (window rl)) (calls rl i)) +
         length (filter (\<lambda>b. b) (fst (is_allowed_seq rl i nows)))"
  using assms
proof (induction nows arbitrary: rl)
  case Nil
  show ?case by simp
next
  case (Cons n nows)
  let ?rl1 = "snd (is_allowed rl i n)"
  have w1: "window ?rl1 = window rl" by (simp add: is_allowed_frame)
  have n: "n \<le> T" "T - n < real_of_int (window rl)" using Cons.prems by auto
  have ih: "length (filter (\<lambda>t. T - t < real_of_int (window rl)) (calls (snd (is_allowed_seq ?rl1 i nows)) i)) =
         length (filter (\<lambda>t. T - t < real_of_int (window rl)) (calls ?rl1 i)) +
         length (filter (\<lambda>b. b) (fst (is_allowed_seq ?rl1 i nows)))"
    using Cons.IH [of ?rl1] Cons.prems by (simp add: w1)
  have step: "length (filter (\<lambda>t. T - t < real_of_int (window rl)) (calls ?rl1 i)) =
        length (filter (\<lambda>t. T - t < real_of_int (window rl)) (calls rl i)) +
        (if fst (is_allowed rl i n) then 1 else 0)"
    using n by (simp add: is_allowed_calls filter_window_absorb del: filter_filter)
  show ?case using ih step by (simp add: split_beta Let_def)
qed


text \<open>
  Claim C2. \<^verbatim>\<open>is_allowed\<close> keeps, for the identifier, the timestamps \<open>t\<close> with
  \<open>now - t < window\<close> (an entry is discarded once \<open>window\<close> seconds have elapsed since
  it), admits iff fewer than \<open>max_calls\<close> remain, and appends \<open>now\<close> only on admission;
  the other identifiers and the configuration are untouched. Hence, after a run of checks
  none later than \<open>now\<close> and all within the window ending at \<open>now\<close>, of which at least
  \<open>max_calls\<close> were admitted, the check at \<open>now\<close> is denied; and once \<open>window\<close> seconds
  have elapsed past every recorded timestamp the window is emptied and the call is
  admitted again (for a positive \<open>max_calls\<close>).
\<close>

theorem rate_limiter_sliding_window:
  "fst (is_allowed rl i now) =
     (int (length (filter (\<lambda>t. now - t < real_of_int (window rl)) (calls rl i))) < max_calls rl)
   \<and> calls (snd (is_allowed rl i now)) i =
       (if fst (is_allowed rl i now)
        then filter (\<lambda>t. now - t < real_of_int (window rl)) (calls rl i) @ [now]
        else filter (\<lambda>t. now - t < real_of_int (window rl)) (calls rl i))
   \<and> (\<forall>j. j \<noteq> i \<longrightarrow> calls (snd (is_allowed rl i now)) j = calls rl j)
   \<and> max_calls (snd (is_allowed rl i now)) = max_calls rl
   \<and> window (snd (is_allowed rl i now)) = window rl
   \<and> ((\<forall>t\<in>set nows. t \<le> now \<and> now - t < real_of_int (window rl))
        \<and> max_calls rl \<le> int (length (filter (\<lambda>ok. ok) (fst (is_allowed_seq rl i nows))))
      \<longrightarrow> \<not> fst (is_allowed (snd (is_allowed_seq rl i nows)) i now))
   \<and> ((\<forall>t\<in>set (calls rl i). real_of_int (window rl) \<le> now - t) \<and> 0 < max_calls rl
      \<longrightarrow> fst (is_allowed rl i now) \<and> calls (snd (is_allowed rl i now)) i = [now])"
proof -
  have denied: "\<not> fst (is_allowed (snd (is_allowed_seq rl i nows)) i now)"
    if a: "\<forall>t\<in>set nows. t \<le> now \<and> now - t < real_of_int (window rl)"
    and b: "max_calls rl \<le> int (length (filter (\<lambda>ok. ok) (fst (is_allowed_seq rl i nows))))"
  proof -
    have "length (filter (\<lambda>ok. ok) (fst (is_allowed_seq rl i nows))) \<le>
          length (filter (\<lambda>t. now - t < real_of_int (window rl)) (calls (snd (is_allowed_seq rl i nows)) i))"
      using is_allowed_seq_count [OF a, of i] by simp
    with b show ?thesis
      by (simp add: is_allowed_fst is_allowed_seq_frame)
  qed
  have reset: "fst (is_allowed rl i now) \<and> calls (snd (is_allowed rl i now)) i = [now]"
    if a: "\<forall>t\<in>set (calls rl i). real_of_int (window rl) \<le> now - t" and b: "0 < max_calls rl"
  proof -
    have "filter (\<lambda>t. now - t < real_of_int (window rl)) (calls rl i) = []"
      using a by (auto simp: filter_empty_conv)
    then show ?thesis using b by (simp add: is_allowed_fst is_allowed_calls)
  qed
  have p1: "fst (is_allowed rl i now) =
     (int (length (filter (\<lambda>t. now - t < real_of_int (window rl)) (calls rl i))) < max_calls rl)"
    by (rule is_allowed_fst)
  have p2: "calls (snd (is_allowed rl i now)) i =
       (if fst (is_allowed rl i now)
        then filter (\<lambda>t. now - t < real_of_int (window rl)) (calls rl i) @ [now]
        else filter (\<lambda>t. now - t < real_of_int (window rl)) (calls rl i))"
    by (rule is_allowed_calls)
  have p3: "\<forall>j. j \<noteq> i \<longrightarrow> calls (snd (is_allowed rl i now)) j = calls rl j"
    by (simp add: is_allowed_frame)
  have p4: "max_calls (snd (is_allowed rl i now)) = max_calls rl"
    and p5: "window (snd (is_allowed rl i now)) = window rl"
    by (simp_all add: is_allowed_frame)
  have p6: "(\<forall>t\<in>set nows. t \<le> now \<and> now - t < real_of_int (window rl))
        \<and> max_calls rl \<le> int (length (filter (\<lambda>ok. ok) (fst (is_allowed_seq rl i nows))))
      \<longrightarrow> \<not> fst (is_allowed (snd (is_allowed_seq rl i nows)) i now)"
    using denied by blast
  have p7: "(\<forall>t\<in>set (calls rl i). real_of_int (window rl) \<le> now - t) \<and> 0 < max_calls rl
      \<longrightarrow> fst (is_allowed rl i now) \<and> calls (snd (is_allowed rl i now)) i = [now]"
    using reset by blast
  show ?thesis
    by (intro conjI p1 p2 p3 p4 p5 p6 p7)
qed

theorem rate_limiter_sliding_window_witness:
  "fst (is_allowed_seq limiter0 ''client'' [0, 1]) = [True, True]
   \<and> \<not> fst (is_allowed (snd (is_allowed_seq limiter0 ''client'' [0, 1])) ''client'' 2)
   \<and> fst (is_allowed (snd (is_allowed_seq limiter0 ''client'' [0, 1])) ''client'' 11)
   \<and> calls (snd (is_allowed (snd (is_allowed_seq limiter0 ''client'' [0, 1])) ''client'' 11)) ''client'' = [11]"
  using rate_limiter_sliding_window [of limiter0 "''client''" 2 "[0, 1]"]
        rate_limiter_sliding_window [of "snd (is_allowed_seq limiter0 ''client'' [0, 1])" "''client''" 11 "[]"]
  by (simp add: limiter0_def is_allowed_def Let_def)

section \<open>The analyzer: short circuits and the exception boundary\<close>

lemma extract_content_texts:
  "fst (extract_content chunks) =
     map strip (filter (\<lambda>t. 10 < length (strip t)) (List.map_filter text_of chunks))"
proof (induction chunks rule: extract_content.induct)
  case 1
  show ?case by (simp add: List.map_filter_simps)
next
  case (2 chunk chunks)
  then show ?case
    by (auto simp: List.map_filter_simps split_beta split: option.splits pyval.splits)
qed (simp_all add: List.map_filter_simps)

lemma extract_content_length:
  "length (snd (extract_content chunks)) = length (fst (extract_content chunks))"
  by (induction chunks rule: extract_content.induct)
     (auto simp: split_beta split: option.splits pyval.splits)

lemma analyze_empty:
  "queries = [] \<or> chunks = [] \<Longrightarrow>
   analyze_content_relevance w st queries chunks cid now1 now2 = (Inr (zero_report []), st)"
  by (auto simp: analyze_content_relevance_def)

lemma analyze_no_content:
  "queries \<noteq> [] \<Longrightarrow> chunks \<noteq> [] \<Longrightarrow> fst (extract_content chunks) = [] \<Longrightarrow>
   analyze_content_relevance w st queries chunks cid now1 now2 =
     (Inr (zero_report [''No meaningful content found for analysis'']), st)"
  by (auto simp: analyze_content_relevance_def split_beta)

lemma analyze_tried:
  "queries \<noteq> [] \<Longrightarrow> chunks \<noteq> [] \<Longrightarrow> fst (extract_content chunks) \<noteq> [] \<Longrightarrow>
   analyze_content_relevance w st queries chunks cid now1 now2 =
     (case analyze_try w st queries (fst (extract_content chunks)) (snd (extract_content chunks))
             cid now1 now2 of
        (Inl e, st1) \<Rightarrow> (Inr (error_report e), st1)
      | (Inr r, st1) \<Rightarrow> (Inr r, st1))"
  by (auto simp: analyze_content_relevance_def split_beta)

lemma analyze_returns:
  "\<exists>r. fst (analyze_content_relevance w st queries chunks cid now1 now2) = Inr r"
  by (auto simp: analyze_content_relevance_def split_beta split: prod.splits sum.splits)

text \<open>
  Claim C4. With no query or no chunk the zero report is returned at once and the service
  is left as it was (no rate-limit check, no load, no invocation of the model). The texts
  that are embedded are the stripped texts of the chunks whose stripped text has more than
  10 characters; when there is none, the zero report with the recommendation
  \<^verbatim>\<open>No meaningful content found for analysis\<close> is returned, the service again untouched.
\<close>

theorem short_circuits:
  "(queries = [] \<or> chunks = [] \<longrightarrow>
      analyze_content_relevance w st queries chunks cid now1 now2 = (Inr (zero_report []), st))
   \<and> fst (extract_content chunks) =
       map strip (filter (\<lambda>t. 10 < length (strip t)) (List.map_filter text_of chunks))
   \<and> (queries \<noteq> [] \<and> chunks \<noteq> [] \<and>
        filter (\<lambda>t. 10 < length (strip t)) (List.map_filter text_of chunks) = [] \<longrightarrow>
      analyze_content_relevance w st queries chunks cid now1 now2 =
        (Inr (zero_report [''No meaningful content found for analysis'']), st))
   \<and> overall_score (zero_report recs) = 0 \<and> content_coverage (zero_report recs) = 0
   \<and> query_analysis (zero_report recs) = [] \<and> recommendations (zero_report recs) = recs"
proof -
  have a: "queries = [] \<or> chunks = [] \<longrightarrow>
      analyze_content_relevance w st queries chunks cid now1 now2 = (Inr (zero_report []), st)"
    using analyze_empty by blast
  have b: "queries \<noteq> [] \<and> chunks \<noteq> [] \<and>
        filter (\<lambda>t. 10 < length (strip t)) (List.map_filter text_of chunks) = [] \<longrightarrow>
      analyze_content_relevance w st queries chunks cid now1 now2 =
        (Inr (zero_report [''No meaningful content found for analysis'']), st)"
    using analyze_no_content [of queries chunks] by (simp add: extract_content_texts)
  have c: "overall_score (zero_report recs) = 0 \<and> content_coverage (zero_report recs) = 0
   \<and> query_analysis (zero_report recs) = [] \<and> recommendations (zero_report recs) = recs"
    by (simp add: zero_report_def)
  show ?thesis
    using a b c extract_content_texts by blast
qed

theorem short_circuits_witness:
  "analyze_content_relevance world0 service0 [] [chunk0] ''id'' 0 1 = (Inr (zero_report []), service0)
   \<and> analyze_content_relevance world0 service0 [PStr ''What is X?''] [PDict [(''text'', PStr ''  too short  '')], PInt 3]
        ''id'' 0 1 = (Inr (zero_report [''No meaningful content found for analysis'']), service0)
   \<and> encode_calls service0 = 0"
  using short_circuits [of "[]" "[chunk0]" world0 service0 "''id''" 0 1 "[]"]
        short_circuits [of "[PStr ''What is X?'']" "[PDict [(''text'', PStr ''  too short  '')], PInt 3]"
           world0 service0 "''id''" 0 1 "[]"]
  by (simp add: List.map_filter_simps strip_def isspace_def service0_def)

text \<open>The definitions that evaluate the model on a concrete input.\<close>

lemmas eval_defs = analyze_content_relevance_def analyze_try_def encode_texts_def encode_miss_def
  is_allowed_def initialize_def strip_def isspace_def Let_def
  nd_size_def calculate_similarity_def cosine_similarity_def dot_def norm2_def normalize_def
  analyze_query_def np_max_def np_argmax_def stable_argsort_def top_indices_def 
  generate_recommendations_def round2_def round_half_even_def zero_report_def error_report_def
  fmt_1f_def numeral_3_eq_3

lemma encode_texts_denied:
  "\<not> fst (is_allowed (limiter st) cid now) \<Longrightarrow>
   fst (encode_texts w st texts use_cache cid now) =
     Inl (Exception ''Rate limit exceeded. Please try again later.'')"
  by (simp add: encode_texts_def split_beta)

lemma encode_miss_fails:
  "encode_error w (encode_calls st) = Some m \<Longrightarrow>
   fst (encode_miss w st cleaned use_cache) = Inl (Exception (''Embedding generation failed: '' @ m))"
  by (simp add: encode_miss_def)

lemma analyze_try_queries_raise:
  "fst (encode_texts w st queries True cid now1) = Inl e \<Longrightarrow>
   fst (analyze_try w st queries texts md cid now1 now2) = Inl e"
  by (auto simp: analyze_try_def split: prod.splits sum.splits)

lemma analyze_try_content_raise:
  "encode_texts w st queries True cid now1 = (Inr qe, st1) \<Longrightarrow>
   fst (encode_texts w st1 (map PStr texts) True cid now2) = Inl e \<Longrightarrow>
   fst (analyze_try w st queries texts md cid now1 now2) = Inl e"
  by (auto simp: analyze_try_def split: prod.splits sum.splits)

lemma analyze_try_similarity_raise:
  "encode_texts w st queries True cid now1 = (Inr qe, st1) \<Longrightarrow>
   encode_texts w st1 (map PStr texts) True cid now2 = (Inr ce, st2) \<Longrightarrow>
   nd_size qe \<noteq> 0 \<Longrightarrow> nd_size ce \<noteq> 0 \<Longrightarrow> calculate_similarity qe ce = Inl e \<Longrightarrow>
   fst (analyze_try w st queries texts md cid now1 now2) = Inl e"
  by (auto simp: analyze_try_def split: prod.splits sum.splits)

lemma analyze_caught:
  "queries \<noteq> [] \<Longrightarrow> chunks \<noteq> [] \<Longrightarrow> fst (extract_content chunks) \<noteq> [] \<Longrightarrow>
   fst (analyze_try w st queries (fst (extract_content chunks)) (snd (extract_content chunks))
          cid now1 now2) = Inl e \<Longrightarrow>
   fst (analyze_content_relevance w st queries chunks cid now1 now2) = Inr (error_report e)"
  by (auto simp: analyze_tried split: prod.splits sum.splits)

lemma error_report_fields:
  "overall_score (error_report e) = 0 \<and> content_coverage (error_report e) = 0
   \<and> query_analysis (error_report e) = [] \<and> error (error_report e) = Some (str_exn e)
   \<and> recommendations (error_report e) = [''Analysis failed: '' @ str_exn e]"
  by (simp add: error_report_def zero_report_def)

text \<open>
  Claim C1. \<^verbatim>\<open>analyze_content_relevance\<close> always returns a report, never an exception.
  An exception raised while the queries are encoded, while the chunk texts are encoded, or
  by the similarity computation (indeed any exception of the \<^verbatim>\<open>try\<close> block) becomes the
  zero-valued report whose \<^verbatim>\<open>error\<close> field is the message of the exception. A denial
  by the rate limiter and a failure of the model are raised by \<^verbatim>\<open>encode_texts\<close> as
  such exceptions, so they are returned this way.
\<close>

theorem exceptions_become_reports:
  "(\<exists>r. fst (analyze_content_relevance w st queries chunks cid now1 now2) = Inr r)
   \<and> (queries \<noteq> [] \<and> chunks \<noteq> [] \<and> fst (extract_content chunks) \<noteq> [] \<longrightarrow>
        (\<forall>e. fst (encode_texts w st queries True cid now1) = Inl e \<longrightarrow>
           fst (analyze_content_relevance w st queries chunks cid now1 now2) = Inr (error_report e))
      \<and> (\<forall>e qe st1.
           encode_texts w st queries True cid now1 = (Inr qe, st1) \<and>
           fst (encode_texts w st1 (map PStr (fst (extract_content chunks))) True cid now2) = Inl e \<longrightarrow>
           fst (analyze_content_relevance w st queries chunks cid now1 now2) = Inr (error_report e))
      \<and> (\<forall>e qe st1 ce st2.
           encode_texts w st queries True cid now1 = (Inr qe, st1) \<and>
           encode_texts w st1 (map PStr (fst (extract_content chunks))) True cid now2 = (Inr ce, st2) \<and>
           nd_size qe \<noteq> 0 \<and> nd_size ce \<noteq> 0 \<and> calculate_similarity qe ce = Inl e \<longrightarrow>
           fst (analyze_content_relevance w st queries chunks cid now1 now2) = Inr (error_report e))
      \<and> (\<forall>e. fst (analyze_try w st queries (fst (extract_content chunks))
                     (snd (extract_content chunks)) cid now1 now2) = Inl e \<longrightarrow>
           fst (analyze_content_relevance w st queries chunks cid now1 now2) = Inr (error_report e)))
   \<and> (\<not> fst (is_allowed (limiter st) cid now1) \<longrightarrow>
        fst (encode_texts w st texts use_cache cid now1) =
          Inl (Exception ''Rate limit exceeded. Please try again later.''))
   \<and> (encode_error w (encode_calls st) = Some m \<longrightarrow>
        fst (encode_miss w st cleaned use_cache) =
          Inl (Exception (''Embedding generation failed: '' @ m)))
   \<and> overall_score (error_report x) = 0 \<and> content_coverage (error_report x) = 0
   \<and> query_analysis (error_report x) = [] \<and> error (error_report x) = Some (str_exn x)
   \<and> recommendations (error_report x) = [''Analysis failed: '' @ str_exn x]"
proof -
  have p1: "\<exists>r. fst (analyze_content_relevance w st queries chunks cid now1 now2) = Inr r"
    by (rule analyze_returns)
  have p2: "queries \<noteq> [] \<and> chunks \<noteq> [] \<and> fst (extract_content chunks) \<noteq> [] \<longrightarrow>
        (\<forall>e. fst (encode_texts w st queries True cid now1) = Inl e \<longrightarrow>
           fst (analyze_content_relevance w st queries chunks cid now1 now2) = Inr (error_report e))
      \<and> (\<forall>e qe st1.
           encode_texts w st queries True cid now1 = (Inr qe, st1) \<and>
           fst (encode_texts w st1 (map PStr (fst (extract_content chunks))) True cid now2) = Inl e \<longrightarrow>
           fst (analyze_content_relevance w st queries chunks cid now1 now2) = Inr (error_report e))
      \<and> (\<forall>e qe st1 ce st2.
           encode_texts w st queries True cid now1 = (Inr qe, st1) \<and>
           encode_texts w st1 (map PStr (fst (extract_content chunks))) True cid now2 = (Inr ce, st2) \<and>
           nd_size qe \<noteq> 0 \<and> nd_size ce \<noteq> 0 \<and> calculate_similarity qe ce = Inl e \<longrightarrow>
           fst (analyze_content_relevance w st queries chunks cid now1 now2) = Inr (error_report e))
      \<and> (\<forall>e. fst (analyze_try w st queries (fst (extract_content chunks))
                     (snd (extract_content chunks)) cid now1 now2) = Inl e \<longrightarrow>
           fst (analyze_content_relevance w st queries chunks cid now1 now2) = Inr (error_report e))"
    by (intro impI conjI allI; elim conjE)
       (rule analyze_caught; (assumption | rule analyze_try_queries_raise
          analyze_try_content_raise analyze_try_similarity_raise); assumption)+
  have p3: "\<not> fst (is_allowed (limiter st) cid now1) \<longrightarrow>
        fst (encode_texts w st texts use_cache cid now1) =
          Inl (Exception ''Rate limit exceeded. Please try again later.'')"
    using encode_texts_denied by blast
  have p4: "encode_error w (encode_calls st) = Some m \<longrightarrow>
        fst (encode_miss w st cleaned use_cache) =
          Inl (Exception (''Embedding generation failed: '' @ m))"
    using encode_miss_fails by blast
  show ?thesis
    using p1 p2 p3 p4 error_report_fields [of x] by (intro conjI) blast+
qed

theorem exceptions_become_reports_witness:
  "fst (analyze_content_relevance world0 service_denied [PStr ''What is X?''] [chunk0] ''id'' 0 1) =
     Inr (error_report (Exception ''Rate limit exceeded. Please try again later.''))
   \<and> fst (analyze_content_relevance world_failing service0 [PStr ''What is X?''] [chunk0] ''id'' 0 1) =
     Inr (error_report (Exception ''Embedding generation failed: CUDA out of memory''))
   \<and> error (error_report (Exception ''Rate limit exceeded. Please try again later.'')) =
       Some ''Rate limit exceeded. Please try again later.''"
  using exceptions_become_reports [of world0 service_denied "[PStr ''What is X?'']" "[chunk0]" "''id''" 0 1
          "[PStr ''What is X?'']" True "''x''" "[]" "Exception ''Rate limit exceeded. Please try again later.''"]
        exceptions_become_reports [of world_failing service0 "[PStr ''What is X?'']" "[chunk0]" "''id''" 0 1
          "[PStr ''What is X?'']" True "''CUDA out of memory''" "[''What is X?'']"
          "Exception ''Rate limit exceeded. Please try again later.''"]
  by (simp add: eval_defs world0_def service0_def chunk0_def service_denied_def world_failing_def)

section \<open>encode_texts: the rate window, the cache and the model\<close>

lemma try_load_frame:
  "limiter (snd (try_load w n le st)) = limiter st \<and>
   cache (snd (try_load w n le st)) = cache st \<and>
   encode_calls (snd (try_load w n le st)) = encode_calls st \<and>
   model_name (snd (try_load w n le st)) = model_name st"
  by (induction n arbitrary: le st) (auto split: option.splits)

lemma initialize_frame:
  "limiter (snd (initialize w n st)) = limiter st \<and>
   cache (snd (initialize w n st)) = cache st \<and>
   encode_calls (snd (initialize w n st)) = encode_calls st \<and>
   model_name (snd (initialize w n st)) = model_name st"
  by (simp add: initialize_def try_load_frame)

lemma initialize_loaded:
  "model_loaded st \<Longrightarrow> initialize w n st = (Inr (), st)"
  by (simp add: initialize_def)

lemma encode_miss_limiter:
  "limiter (snd (encode_miss w st c uc)) = limiter st"
  by (simp add: encode_miss_def Let_def split: option.splits)

lemma encode_texts_limiter:
  "limiter (snd (encode_texts w st texts uc cid now)) = snd (is_allowed (limiter st) cid now)"
proof -
  obtain r st2 where i: "initialize w 3 (st\<lparr>limiter := snd (is_allowed (limiter st) cid now)\<rparr>) = (r, st2)"
    by (cases "initialize w 3 (st\<lparr>limiter := snd (is_allowed (limiter st) cid now)\<rparr>)") auto
  have "limiter st2 = snd (is_allowed (limiter st) cid now)"
    using initialize_frame [of w 3 "st\<lparr>limiter := snd (is_allowed (limiter st) cid now)\<rparr>"] i by simp
  then show ?thesis
    using i by (auto simp: encode_texts_def split_beta Let_def encode_miss_limiter
        split: sum.splits option.splits)
qed

lemma encode_texts_no_model_call:
  assumes "texts = [] \<or> clean_texts texts = [] \<or>
           (use_cache \<and> map_of (cache st) (cache_key w texts) \<noteq> None)"
  shows "cache (snd (encode_texts w st texts use_cache cid now)) = cache st \<and>
         encode_calls (snd (encode_texts w st texts use_cache cid now)) = encode_calls st"
proof -
  obtain r st2 where i: "initialize w 3 (st\<lparr>limiter := snd (is_allowed (limiter st) cid now)\<rparr>) = (r, st2)"
    by (cases "initialize w 3 (st\<lparr>limiter := snd (is_allowed (limiter st) cid now)\<rparr>)") auto
  have "cache st2 = cache st \<and> encode_calls st2 = encode_calls st"
    using initialize_frame [of w 3 "st\<lparr>limiter := snd (is_allowed (limiter st) cid now)\<rparr>"] i by simp
  then show ?thesis
    using i assms by (auto simp: encode_texts_def split_beta Let_def cache_key_def
        split: sum.splits option.splits)
qed

lemma encode_texts_served:
  assumes "fst (is_allowed (limiter st) cid now)" and "model_loaded st"
  shows "(texts = [] \<or> clean_texts texts = [] \<longrightarrow>
            fst (encode_texts w st texts use_cache cid now) = Inr [])
       \<and> (clean_texts texts \<noteq> [] \<and> use_cache \<and> map_of (cache st) (cache_key w texts) = Some v \<longrightarrow>
            fst (encode_texts w st texts use_cache cid now) = Inr v)"
  using assms
  by (auto simp: encode_texts_def split_beta Let_def cache_key_def initialize_loaded)

text \<open>
  Claim C10. A call of \<^verbatim>\<open>encode_texts\<close> that the limiter admits appends its timestamp
  to the window of the caller, whatever happens next. When the batch is empty, is empty
  after cleaning, or is found in the cache, the cache is left as it was and the model is
  not invoked (with a loaded model the call returns the empty batch, or the cached
  vectors): the quota is spent all the same.
\<close>

theorem quota_consumed_without_model_call:
  "(fst (is_allowed (limiter st) cid now) \<longrightarrow>
      calls (limiter (snd (encode_texts w st texts use_cache cid now))) cid =
        filter (\<lambda>t. now - t < real_of_int (window (limiter st))) (calls (limiter st) cid) @ [now])
   \<and> (texts = [] \<or> clean_texts texts = [] \<or>
        (use_cache \<and> map_of (cache st) (cache_key w texts) \<noteq> None) \<longrightarrow>
      cache (snd (encode_texts w st texts use_cache cid now)) = cache st \<and>
      encode_calls (snd (encode_texts w st texts use_cache cid now)) = encode_calls st)
   \<and> (fst (is_allowed (limiter st) cid now) \<and> model_loaded st \<longrightarrow>
        (texts = [] \<or> clean_texts texts = [] \<longrightarrow>
            fst (encode_texts w st texts use_cache cid now) = Inr [])
      \<and> (clean_texts texts \<noteq> [] \<and> use_cache \<and> map_of (cache st) (cache_key w texts) = Some v \<longrightarrow>
            fst (encode_texts w st texts use_cache cid now) = Inr v))"
proof -
  have p1: "fst (is_allowed (limiter st) cid now) \<longrightarrow>
      calls (limiter (snd (encode_texts w st texts use_cache cid now))) cid =
        filter (\<lambda>t. now - t < real_of_int (window (limiter st))) (calls (limiter st) cid) @ [now]"
    by (simp add: encode_texts_limiter is_allowed_calls)
  have p2: "texts = [] \<or> clean_texts texts = [] \<or>
        (use_cache \<and> map_of (cache st) (cache_key w texts) \<noteq> None) \<longrightarrow>
      cache (snd (encode_texts w st texts use_cache cid now)) = cache st \<and>
      encode_calls (snd (encode_texts w st texts use_cache cid now)) = encode_calls st"
    using encode_texts_no_model_call by blast
  have p3: "fst (is_allowed (limiter st) cid now) \<and> model_loaded st \<longrightarrow>
        (texts = [] \<or> clean_texts texts = [] \<longrightarrow>
            fst (encode_texts w st texts use_cache cid now) = Inr [])
      \<and> (clean_texts texts \<noteq> [] \<and> use_cache \<and> map_of (cache st) (cache_key w texts) = Some v \<longrightarrow>
            fst (encode_texts w st texts use_cache cid now) = Inr v)"
    using encode_texts_served by blast
  show ?thesis
    by (intro conjI p1 p2 p3)
qed

theorem quota_consumed_without_model_call_witness:
  "calls (limiter (snd (encode_texts world0 service_cached [PStr ''What is X?''] True ''id'' 5))) ''id'' = [5]
   \<and> fst (encode_texts world0 service_cached [PStr ''What is X?''] True ''id'' 5) = Inr [[1, 0]]
   \<and> cache (snd (encode_texts world0 service_cached [PStr ''What is X?''] True ''id'' 5)) = cache service_cached
   \<and> encode_calls (snd (encode_texts world0 service_cached [PStr ''What is X?''] True ''id'' 5)) = 0
   \<and> calls (limiter (snd (encode_texts world0 service_cached [PStr ''   ''] True ''id'' 5))) ''id'' = [5]
   \<and> encode_calls (snd (encode_texts world0 service_cached [PStr ''   ''] True ''id'' 5)) = 0
   \<and> calls (limiter (snd (encode_texts world0 service_cached [] True ''id'' 5))) ''id'' = [5]"
  using quota_consumed_without_model_call [of service_cached "''id''" 5 world0 "[PStr ''What is X?'']" True "[[1, 0]]"]
        quota_consumed_without_model_call [of service_cached "''id''" 5 world0 "[PStr ''   '']" True "[]"]
        quota_consumed_without_model_call [of service_cached "''id''" 5 world0 "[]" True "[]"]
  by (simp add: is_allowed_def cache_key_def strip_def isspace_def world0_def service0_def service_cached_def)

section \<open>Verdicts and scores\<close>

lemma np_max_Max:
  "np_max row = Inr m \<Longrightarrow> row \<noteq> [] \<and> m = Max (set row)"
proof (cases row)
  case Nil
  assume "np_max row = Inr m"
  with Nil show ?thesis by (simp add: np_max_def)
next
  case (Cons x xs)
  assume "np_max row = Inr m"
  with Cons have "m = fold max xs x" by (simp add: np_max_def)
  also have "\<dots> = Max (set (x # xs))" by (rule Max.set_eq_fold [symmetric])
  finally show ?thesis using Cons by simp
qed

lemma analyze_query_fields:
  assumes "analyze_query w row md q = Inr v"
  shows "row \<noteq> [] \<and> query v = q \<and> max_similarity v = Max (set row)
       \<and> is_answered v = (2 / 5 < max_similarity v)
       \<and> confidence v = min (max_similarity v * 2) 1"
proof -
  obtain m where m: "np_max row = Inr m"
    using assms by (cases "np_max row") (auto simp: analyze_query_def)
  then have "row \<noteq> []" "m = Max (set row)" using np_max_Max by blast+
  then show ?thesis
    using assms m by (auto simp: analyze_query_def Let_def split: sum.splits)
qed

lemma analyze_queries_rows:
  "analyze_queries w sm md i qs = Inr vs \<Longrightarrow>
   length vs = length qs \<and> (qs \<noteq> [] \<longrightarrow> i + length qs \<le> length sm) \<and>
   (\<forall>j<length qs. analyze_query w (sm ! (i + j)) md (qs ! j) = Inr (vs ! j))"
proof (induction qs arbitrary: i vs)
  case Nil
  then show ?case by simp
next
  case (Cons q qs)
  from Cons.prems obtain v vs' where
    i: "i < length sm" and v: "analyze_query w (sm ! i) md q = Inr v"
    and r: "analyze_queries w sm md (Suc i) qs = Inr vs'" and vs: "vs = v # vs'"
    by (auto split: if_splits sum.splits)
  have ih: "length vs' = length qs \<and> (qs \<noteq> [] \<longrightarrow> Suc i + length qs \<le> length sm) \<and>
     (\<forall>j<length qs. analyze_query w (sm ! (Suc i + j)) md (qs ! j) = Inr (vs' ! j))"
    using Cons.IH [OF r] .
  show ?case
  proof (intro conjI allI impI)
    show "length vs = length (q # qs)" using ih vs by simp
    show "i + length (q # qs) \<le> length sm" using ih i by (cases qs) auto
    fix j assume "j < length (q # qs)"
    then show "analyze_query w (sm ! (i + j)) md ((q # qs) ! j) = Inr (vs ! j)"
      using ih v vs by (cases j) auto
  qed
qed

lemma analyze_queries_verdict:
  assumes "analyze_queries w sm md i qs = Inr vs" and "v \<in> set vs"
  shows "\<exists>row q. analyze_query w row md q = Inr v"
proof -
  obtain j where j: "j < length vs" "vs ! j = v"
    using assms(2) by (auto simp: in_set_conv_nth)
  then show ?thesis
    using analyze_queries_rows [OF assms(1)] by metis
qed

lemma analyze_try_verdicts:
  assumes "analyze_try w st queries texts md cid now1 now2 = (Inr r, st')"
  shows "query_analysis r = [] \<or>
         (\<exists>qe st1 ce sm.
              encode_texts w st queries True cid now1 = (Inr qe, st1)
            \<and> encode_texts w st1 (map PStr texts) True cid now2 = (Inr ce, st')
            \<and> calculate_similarity qe ce = Inr sm
            \<and> analyze_queries w sm md 0 queries = Inr (query_analysis r)
            \<and> overall_score r =
                round2 (sum_list (map confidence (query_analysis r)) / real (length queries) * 100)
            \<and> content_coverage r =
                round2 (real (length (filter is_answered (query_analysis r))) / real (length queries) * 100))"
  using assms
  by (auto simp: analyze_try_def Let_def zero_report_def split: prod.splits sum.splits if_splits)

lemma analyze_report_verdicts:
  assumes "analyze_content_relevance w st queries chunks cid now1 now2 = (Inr r, st')"
  shows "query_analysis r = [] \<or>
         (\<exists>qe st1 ce sm.
              encode_texts w st queries True cid now1 = (Inr qe, st1)
            \<and> encode_texts w st1 (map PStr (fst (extract_content chunks))) True cid now2 = (Inr ce, st')
            \<and> calculate_similarity qe ce = Inr sm
            \<and> analyze_queries w sm (snd (extract_content chunks)) 0 queries = Inr (query_analysis r)
            \<and> overall_score r =
                round2 (sum_list (map confidence (query_analysis r)) / real (length queries) * 100)
            \<and> content_coverage r =
                round2 (real (length (filter is_answered (query_analysis r))) / real (length queries) * 100))"
proof (cases "queries = [] \<or> chunks = [] \<or> fst (extract_content chunks) = []")
  case True
  then have "r = zero_report [] \<or> r = zero_report [''No meaningful content found for analysis'']"
    using assms analyze_empty [of queries chunks w st cid now1 now2]
      analyze_no_content [of queries chunks w st cid now1 now2] by (cases "queries = [] \<or> chunks = []") auto
  then show ?thesis
    by (auto simp: zero_report_def)
next
  case False
  obtain x st1 where t: "analyze_try w st queries (fst (extract_content chunks))
      (snd (extract_content chunks)) cid now1 now2 = (x, st1)"
    by (cases "analyze_try w st queries (fst (extract_content chunks))
      (snd (extract_content chunks)) cid now1 now2") auto
  show ?thesis
  proof (cases x)
    case (Inl e)
    then have "r = error_report e"
      using assms False t by (simp add: analyze_tried)
    then show ?thesis by (simp add: error_report_def zero_report_def)
  next
    case (Inr r')
    then have "r = r'" "st' = st1"
      using assms False t by (simp_all add: analyze_tried)
    then show ?thesis using analyze_try_verdicts [of w st queries _ _ cid now1 now2 r' st1] t Inr by blast
  qed
qed


lemma sqrt_25: "sqrt 25 = 5"
  using real_sqrt_abs [of 5] by simp

lemma str_nat_digit: "n < 10 \<Longrightarrow> str_nat n = [char_of (48 + n)]"
  by (simp add: str_nat.simps)

text \<open>
  Claim C5. A verdict computed from a row has \<^verbatim>\<open>max_similarity\<close> the maximum of the row,
  \<^verbatim>\<open>is_answered\<close> true iff that maximum is strictly above 0.4 and \<^verbatim>\<open>confidence\<close>
  \<open>min (max_similarity * 2) 1\<close>. Every verdict of every report the analyzer returns is
  such a verdict, the one of index \<open>j\<close> computed from row \<open>j\<close> of the similarity matrix
  of the encoded queries and chunk texts. At a maximum of exactly 0.4 the query is not
  answered.
\<close>

theorem answered_threshold_and_confidence:
  "(analyze_query w row md q = Inr v \<longrightarrow>
      max_similarity v = Max (set row) \<and> is_answered v = (2 / 5 < Max (set row))
      \<and> confidence v = min (Max (set row) * 2) 1)
   \<and> (analyze_content_relevance w st queries chunks cid now1 now2 = (Inr r, st') \<longrightarrow>
        (\<forall>u\<in>set (query_analysis r).
            is_answered u = (2 / 5 < max_similarity u) \<and> confidence u = min (max_similarity u * 2) 1)
      \<and> (query_analysis r \<noteq> [] \<longrightarrow>
           (\<exists>qe st1 ce sm.
               encode_texts w st queries True cid now1 = (Inr qe, st1)
             \<and> encode_texts w st1 (map PStr (fst (extract_content chunks))) True cid now2 = (Inr ce, st')
             \<and> calculate_similarity qe ce = Inr sm
             \<and> length (query_analysis r) = length queries
             \<and> (\<forall>j<length queries. max_similarity (query_analysis r ! j) = Max (set (sm ! j))))))"
proof -
  have p1: "analyze_query w row md q = Inr v \<longrightarrow>
      max_similarity v = Max (set row) \<and> is_answered v = (2 / 5 < Max (set row))
      \<and> confidence v = min (Max (set row) * 2) 1"
    using analyze_query_fields [of w row md q v] by auto
  have p2: "(\<forall>u\<in>set (query_analysis r).
            is_answered u = (2 / 5 < max_similarity u) \<and> confidence u = min (max_similarity u * 2) 1)
      \<and> (query_analysis r \<noteq> [] \<longrightarrow>
           (\<exists>qe st1 ce sm.
               encode_texts w st queries True cid now1 = (Inr qe, st1)
             \<and> encode_texts w st1 (map PStr (fst (extract_content chunks))) True cid now2 = (Inr ce, st')
             \<and> calculate_similarity qe ce = Inr sm
             \<and> length (query_analysis r) = length queries
             \<and> (\<forall>j<length queries. max_similarity (query_analysis r ! j) = Max (set (sm ! j)))))"
    if a: "analyze_content_relevance w st queries chunks cid now1 now2 = (Inr r, st')"
  proof (cases "query_analysis r = []")
    case True
    then show ?thesis by simp
  next
    case False
    then obtain qe st1 ce sm where
      e1: "encode_texts w st queries True cid now1 = (Inr qe, st1)"
      and e2: "encode_texts w st1 (map PStr (fst (extract_content chunks))) True cid now2 = (Inr ce, st')"
      and cs: "calculate_similarity qe ce = Inr sm"
      and qa: "analyze_queries w sm (snd (extract_content chunks)) 0 queries = Inr (query_analysis r)"
      using analyze_report_verdicts [OF a] by blast
    have rows: "length (query_analysis r) = length queries"
      "\<forall>j<length queries. analyze_query w (sm ! j) (snd (extract_content chunks)) (queries ! j)
          = Inr (query_analysis r ! j)"
      using analyze_queries_rows [OF qa] by simp_all
    have each: "is_answered u = (2 / 5 < max_similarity u) \<and> confidence u = min (max_similarity u * 2) 1"
      if "u \<in> set (query_analysis r)" for u
      using analyze_queries_verdict [OF qa that] analyze_query_fields by blast
    have maxes: "\<forall>j<length queries. max_similarity (query_analysis r ! j) = Max (set (sm ! j))"
      using rows(2) analyze_query_fields by blast
    show ?thesis
      using each e1 e2 cs rows(1) maxes by blast
  qed
  show ?thesis
    using p1 p2 by blast
qed

theorem answered_threshold_and_confidence_witness:
  "map is_answered (query_analysis (projr (fst (analyze_content_relevance world_boundary service0
       [PStr ''What is X?''] [chunk0] ''id'' 0 1)))) = [False]
   \<and> map max_similarity (query_analysis (projr (fst (analyze_content_relevance world_boundary service0
       [PStr ''What is X?''] [chunk0] ''id'' 0 1)))) = [2 / 5]
   \<and> map confidence (query_analysis (projr (fst (analyze_content_relevance world_boundary service0
       [PStr ''What is X?''] [chunk0] ''id'' 0 1)))) = [4 / 5]
   \<and> map is_answered (query_analysis (projr (fst (analyze_content_relevance world0 service0
       [PStr ''What is X?''] [chunk0] ''id'' 0 1)))) = [True]
   \<and> map confidence (query_analysis (projr (fst (analyze_content_relevance world0 service0
       [PStr ''What is X?''] [chunk0] ''id'' 0 1)))) = [1]"
  using answered_threshold_and_confidence [of world_boundary "[2 / 5, 1 / 5]" "[]" PNone _ service0
          "[PStr ''What is X?'']" "[chunk0]" "''id''" 0 1
          "projr (fst (analyze_content_relevance world_boundary service0 [PStr ''What is X?''] [chunk0] ''id'' 0 1))"
          "snd (analyze_content_relevance world_boundary service0 [PStr ''What is X?''] [chunk0] ''id'' 0 1)"]
  by (simp add: eval_defs world_boundary_def world0_def service0_def chunk0_def sqrt_25 str_nat_digit)

text \<open>
  Claim C6. The confidence is capped at 1 but not at 0 (the source's comment reads
  \<^verbatim>\<open>Scale to 0-1\<close>): a query whose best cosine similarity is \<open>- 3 / 5\<close> gets the
  confidence \<open>- 6 / 5\<close>, and the report the overall score \<open>- 120\<close>.
\<close>

theorem confidence_below_zero:
  "map confidence (query_analysis (projr (fst (analyze_content_relevance world_negative service0
       [PStr ''What is X?''] [chunk0] ''id'' 0 1)))) = [- 6 / 5]
   \<and> map max_similarity (query_analysis (projr (fst (analyze_content_relevance world_negative service0
       [PStr ''What is X?''] [chunk0] ''id'' 0 1)))) = [- 3 / 5]
   \<and> overall_score (projr (fst (analyze_content_relevance world_negative service0
       [PStr ''What is X?''] [chunk0] ''id'' 0 1))) = - 120
   \<and> content_coverage (projr (fst (analyze_content_relevance world_negative service0
       [PStr ''What is X?''] [chunk0] ''id'' 0 1))) = 0
   \<and> error (projr (fst (analyze_content_relevance world_negative service0
       [PStr ''What is X?''] [chunk0] ''id'' 0 1))) = None"
  by (simp add: eval_defs world_negative_def world0_def service0_def chunk0_def sqrt_25 str_nat_digit)

section \<open>Top matches\<close>

lemma argsort_ok_facts:
  assumes "argsort_ok f"
  shows "distinct (f row)" and "set (f row) = {0..<length row}"
    and "sorted (map (\<lambda>i. row ! i) (f row))" and "length (f row) = length row"
proof -
  show d: "distinct (f row)" and s: "set (f row) = {0..<length row}"
    and "sorted (map (\<lambda>i. row ! i) (f row))"
    using assms by (simp_all add: argsort_ok_def)
  have "length (f row) = card (set (f row))" using d by (simp add: distinct_card)
  then show "length (f row) = length row" using s by simp
qed

lemma stable_argsort_ok:
  "argsort_ok stable_argsort"
  by (simp add: argsort_ok_def stable_argsort_def)

lemma reversing_argsort_ok:
  "argsort_ok reversing_argsort"
proof -
  have "sorted (map (\<lambda>i. row ! i) (rev (sort_key (\<lambda>i. - (row ! i)) [0..<length row])))"
    for row :: "real list"
  proof -
    have "sorted (map (\<lambda>i. - (row ! i)) (sort_key (\<lambda>i. - (row ! i)) [0..<length row]))"
      by (rule sorted_sort_key)
    then have "sorted_wrt (\<lambda>i j. row ! j \<le> row ! i) (sort_key (\<lambda>i. - (row ! i)) [0..<length row])"
      by (simp add: sorted_map)
    then have "sorted_wrt (\<lambda>i j. row ! i \<le> row ! j) (rev (sort_key (\<lambda>i. - (row ! i)) [0..<length row]))"
      by (simp add: sorted_wrt_rev)
    then show ?thesis by (simp add: sorted_map)
  qed
  then show ?thesis by (simp add: argsort_ok_def reversing_argsort_def)
qed

lemma top_indices_take:
  "top_indices w row = take 3 (rev (argsort w row))"
  by (simp add: top_indices_def take_rev)

lemma rev_argsort_order:
  assumes "argsort_ok (argsort w)"
  shows "sorted_wrt (\<lambda>i j. row ! j \<le> row ! i) (rev (argsort w row))"
  using argsort_ok_facts(3) [OF assms, of row] by (simp add: sorted_map sorted_wrt_rev)

lemma first_three_highest:
  fixes row :: "real list"
  assumes "sorted_wrt (\<lambda>i j. row ! j \<le> row ! i) xs"
  shows "\<forall>i\<in>set (take 3 xs). \<forall>j\<in>set (drop 3 xs). row ! j \<le> row ! i"
proof -
  have "sorted_wrt (\<lambda>i j. row ! j \<le> row ! i) (take 3 xs @ drop 3 xs)"
    using assms by simp
  then show ?thesis unfolding sorted_wrt_append by blast
qed

lemma collect_matches_eq:
  "collect_matches row md idxs = Inr ms \<Longrightarrow>
   ms = map (\<lambda>i. \<lparr>content = original_text (md ! i), score = row ! i, type_match = type_md (md ! i)\<rparr>)
          (filter (\<lambda>i. 1 / 10 < row ! i) idxs)"
  by (induction idxs arbitrary: ms) (auto split: if_splits sum.splits)

lemma fold_max_hd:
  fixes row :: "real list"
  shows "row \<noteq> [] \<Longrightarrow> fold max row (hd row) = Max (set row)"
proof (cases row)
  case Nil
  assume "row \<noteq> []" with Nil show ?thesis by simp
next
  case (Cons x xs)
  have "fold max xs x = Max (set (x # xs))" by (rule Max.set_eq_fold [symmetric])
  then show ?thesis using Cons by simp
qed

lemma np_argmax_first:
  fixes row :: "real list"
  assumes "row \<noteq> []"
  shows "np_argmax row < length row \<and> row ! np_argmax row = Max (set row)
       \<and> (\<forall>j<np_argmax row. row ! j < Max (set row))"
proof -
  let ?m = "Max (set row)"
  let ?P = "\<lambda>x. x < ?m"
  have am: "np_argmax row = length (takeWhile ?P row)"
    using assms by (simp add: np_argmax_def fold_max_hd)
  have "?m \<in> set row" using assms by simp
  then have "\<exists>x\<in>set row. \<not> ?P x" by auto
  then have ne: "takeWhile ?P row \<noteq> row"
    by (simp add: takeWhile_eq_all_conv)
  have "length (takeWhile ?P row) \<noteq> length row"
  proof
    assume "length (takeWhile ?P row) = length row"
    then have "takeWhile ?P row = take (length row) row"
      using takeWhile_eq_take [of ?P row] by simp
    then show False using ne by simp
  qed
  then have lt: "length (takeWhile ?P row) < length row"
    using length_takeWhile_le [of ?P row] by linarith
  have notP: "\<not> ?P (row ! length (takeWhile ?P row))"
    using lt nth_length_takeWhile by blast
  have le: "row ! length (takeWhile ?P row) \<le> ?m"
    using lt by simp
  have before: "\<forall>j<length (takeWhile ?P row). ?P (row ! j)"
    by (metis nth_mem set_takeWhileD takeWhile_nth)
  show ?thesis using am lt notP le before by auto
qed

lemma analyze_query_matches:
  assumes "analyze_query w row md q = Inr v"
  shows "top_matches v =
           map (\<lambda>i. \<lparr>content = original_text (md ! i), score = row ! i, type_match = type_md (md ! i)\<rparr>)
             (filter (\<lambda>i. 1 / 10 < row ! i) (take 3 (rev (argsort w row))))
       \<and> best_match v = (if np_argmax row < length md then original_text (md ! np_argmax row) else [])"
  using assms collect_matches_eq [of row md "top_indices w row"]
  by (auto simp: analyze_query_def Let_def top_indices_take split: sum.splits)

lemma extract_content_metadata:
  "snd (extract_content chunks) =
     map (\<lambda>c. \<lparr>type_md = kind_of c, original_text = preview (the (text_of c)),
                 length_md = length (the (text_of c))\<rparr>) (filter usable chunks)"
proof (induction chunks rule: extract_content.induct)
  case 1
  show ?case by simp
next
  case (2 chunk chunks)
  then show ?case
    by (auto simp: split_beta usable_def preview_def split: option.splits pyval.splits)
qed (simp_all add: usable_def)

lemma preview_length:
  "length (preview body) \<le> 203 \<and> take 200 (preview body) = take 200 body
   \<and> (length body \<le> 200 \<longrightarrow> preview body = body)
   \<and> (200 < length body \<longrightarrow> preview body = take 200 body @ ''...'' \<and> length (preview body) = 203)"
  by (simp add: preview_def)

lemma top_matches_bounds:
  fixes row :: "real list"
  defines "mk \<equiv> (\<lambda>md i. \<lparr>content = original_text (md ! i), score = row ! i, type_match = type_md (md ! i)\<rparr>)"
  assumes "argsort_ok (argsort w)"
  shows "length (map (mk md) (filter (\<lambda>i. 1 / 10 < row ! i) (take 3 (rev (argsort w row))))) \<le> 3
     \<and> (\<forall>m\<in>set (map (mk md) (filter (\<lambda>i. 1 / 10 < row ! i) (take 3 (rev (argsort w row))))). 1 / 10 < score m)
     \<and> sorted_wrt (\<lambda>a b. score b \<le> score a)
          (map (mk md) (filter (\<lambda>i. 1 / 10 < row ! i) (take 3 (rev (argsort w row)))))"
proof -
  let ?is = "filter (\<lambda>i. 1 / 10 < row ! i) (take 3 (rev (argsort w row)))"
  have "length ?is \<le> length (take 3 (rev (argsort w row)))" by (rule length_filter_le)
  then have a: "length (map (mk md) ?is) \<le> 3" by simp
  have b: "\<forall>m\<in>set (map (mk md) ?is). 1 / 10 < score m" by (auto simp: mk_def)
  have "sorted_wrt (\<lambda>i j. row ! j \<le> row ! i) (take 3 (rev (argsort w row)))"
    using rev_argsort_order [OF assms(2), of row] by (rule sorted_wrt_take)
  then have "sorted_wrt (\<lambda>i j. row ! j \<le> row ! i) ?is"
    by (rule sorted_wrt_filter)
  then have c: "sorted_wrt (\<lambda>a b. score b \<le> score a) (map (mk md) ?is)"
    by (simp add: sorted_wrt_map mk_def)
  show ?thesis using a b c by blast
qed

lemma report_rows:
  assumes "analyze_content_relevance w st queries chunks cid now1 now2 = (Inr r, st')"
    and "query_analysis r \<noteq> []"
  shows "\<exists>qe st1 ce sm.
            encode_texts w st queries True cid now1 = (Inr qe, st1)
          \<and> encode_texts w st1 (map PStr (fst (extract_content chunks))) True cid now2 = (Inr ce, st')
          \<and> calculate_similarity qe ce = Inr sm
          \<and> length (query_analysis r) = length queries
          \<and> (\<forall>j<length queries.
                analyze_query w (sm ! j) (snd (extract_content chunks)) (queries ! j)
                  = Inr (query_analysis r ! j))"
proof -
  obtain qe st1 ce sm where
    e1: "encode_texts w st queries True cid now1 = (Inr qe, st1)"
    and e2: "encode_texts w st1 (map PStr (fst (extract_content chunks))) True cid now2 = (Inr ce, st')"
    and cs: "calculate_similarity qe ce = Inr sm"
    and qa: "analyze_queries w sm (snd (extract_content chunks)) 0 queries = Inr (query_analysis r)"
    using analyze_report_verdicts [OF assms(1)] assms(2) by blast
  have "length (query_analysis r) = length queries"
    "\<forall>j<length queries. analyze_query w (sm ! j) (snd (extract_content chunks)) (queries ! j)
        = Inr (query_analysis r ! j)"
    using analyze_queries_rows [OF qa] by simp_all
  then show ?thesis using e1 e2 cs by blast
qed

text \<open>
  Claim C8, as amended. Let \<^verbatim>\<open>np.argsort\<close> return the indices of a row, each once, in
  ascending order of score. The top matches of a query are the entries with score above
  0.1 among the first three indices of the reversed \<^verbatim>\<open>argsort\<close> of its row. That reversed
  list holds every chunk index once, in descending order of score, so its first three
  indices have the highest scores: there are at most three matches, each above 0.1, in
  descending order of score. The order of chunks with equal scores, and which of them are
  listed when they straddle the third place, is left to \<^verbatim>\<open>np.argsort\<close>. In a report with
  verdicts, the verdict of index \<open>j\<close> is the one computed from row \<open>j\<close> of the similarity
  matrix and query \<open>j\<close>. A match carries the preview and the kind of its chunk;
  \<^verbatim>\<open>best_match\<close> is the preview alone, of the first chunk that attains the maximum. The
  preview is the text itself when it has at most 200 characters, else its first 200
  characters followed by three dots, 203 characters.
\<close>

theorem top_matches_ranked:
  assumes "argsort_ok (argsort w)"
  shows "(analyze_query w row md q = Inr v \<longrightarrow>
      top_matches v =
        map (\<lambda>i. \<lparr>content = original_text (md ! i), score = row ! i, type_match = type_md (md ! i)\<rparr>)
          (filter (\<lambda>i. 1 / 10 < row ! i) (take 3 (rev (argsort w row))))
      \<and> length (top_matches v) \<le> 3
      \<and> (\<forall>m\<in>set (top_matches v). 1 / 10 < score m)
      \<and> sorted_wrt (\<lambda>a b. score b \<le> score a) (top_matches v)
      \<and> best_match v = (if np_argmax row < length md then original_text (md ! np_argmax row) else [])
      \<and> row ! np_argmax row = Max (set row) \<and> (\<forall>j<np_argmax row. row ! j < Max (set row)))
   \<and> distinct (rev (argsort w row)) \<and> set (rev (argsort w row)) = {0..<length row}
   \<and> sorted_wrt (\<lambda>i j. row ! j \<le> row ! i) (rev (argsort w row))
   \<and> (\<forall>i\<in>set (take 3 (rev (argsort w row))). \<forall>j\<in>set (drop 3 (rev (argsort w row))). row ! j \<le> row ! i)
   \<and> (analyze_content_relevance w st queries chunks cid now1 now2 = (Inr r, st')
        \<and> query_analysis r \<noteq> [] \<longrightarrow>
        (\<exists>qe st1 ce sm.
            encode_texts w st queries True cid now1 = (Inr qe, st1)
          \<and> encode_texts w st1 (map PStr (fst (extract_content chunks))) True cid now2 = (Inr ce, st')
          \<and> calculate_similarity qe ce = Inr sm
          \<and> length (query_analysis r) = length queries
          \<and> (\<forall>j<length queries.
                analyze_query w (sm ! j) (snd (extract_content chunks)) (queries ! j)
                  = Inr (query_analysis r ! j)
              \<and> top_matches (query_analysis r ! j) =
                  map (\<lambda>i. \<lparr>content = original_text (snd (extract_content chunks) ! i),
                             score = sm ! j ! i,
                             type_match = type_md (snd (extract_content chunks) ! i)\<rparr>)
                    (filter (\<lambda>i. 1 / 10 < sm ! j ! i) (take 3 (rev (argsort w (sm ! j))))))))
   \<and> snd (extract_content chunks) =
        map (\<lambda>c. \<lparr>type_md = kind_of c, original_text = preview (the (text_of c)),
                    length_md = length (the (text_of c))\<rparr>) (filter usable chunks)
   \<and> length (preview body) \<le> 203 \<and> take 200 (preview body) = take 200 body
   \<and> (length body \<le> 200 \<longrightarrow> preview body = body)
   \<and> (200 < length body \<longrightarrow> preview body = take 200 body @ ''...'' \<and> length (preview body) = 203)"
proof -
  have p1: "top_matches v =
        map (\<lambda>i. \<lparr>content = original_text (md ! i), score = row ! i, type_match = type_md (md ! i)\<rparr>)
          (filter (\<lambda>i. 1 / 10 < row ! i) (take 3 (rev (argsort w row))))
      \<and> length (top_matches v) \<le> 3
      \<and> (\<forall>m\<in>set (top_matches v). 1 / 10 < score m)
      \<and> sorted_wrt (\<lambda>a b. score b \<le> score a) (top_matches v)
      \<and> best_match v = (if np_argmax row < length md then original_text (md ! np_argmax row) else [])
      \<and> row ! np_argmax row = Max (set row) \<and> (\<forall>j<np_argmax row. row ! j < Max (set row))"
    if a: "analyze_query w row md q = Inr v"
  proof -
    have ne: "row \<noteq> []" using analyze_query_fields [OF a] by simp
    have m: "top_matches v =
        map (\<lambda>i. \<lparr>content = original_text (md ! i), score = row ! i, type_match = type_md (md ! i)\<rparr>)
          (filter (\<lambda>i. 1 / 10 < row ! i) (take 3 (rev (argsort w row))))"
      and b: "best_match v = (if np_argmax row < length md then original_text (md ! np_argmax row) else [])"
      using analyze_query_matches [OF a] by simp_all
    show ?thesis
      unfolding m using b np_argmax_first [OF ne] top_matches_bounds [OF assms, of md row] by simp
  qed
  have p2: "distinct (rev (argsort w row)) \<and> set (rev (argsort w row)) = {0..<length row}"
    using argsort_ok_facts(1,2) [OF assms, of row] by simp
  have p3: "sorted_wrt (\<lambda>i j. row ! j \<le> row ! i) (rev (argsort w row))"
    by (rule rev_argsort_order [OF assms])
  have p4: "\<forall>i\<in>set (take 3 (rev (argsort w row))). \<forall>j\<in>set (drop 3 (rev (argsort w row))). row ! j \<le> row ! i"
    by (rule first_three_highest [OF p3])
  have p5: "\<exists>qe st1 ce sm.
            encode_texts w st queries True cid now1 = (Inr qe, st1)
          \<and> encode_texts w st1 (map PStr (fst (extract_content chunks))) True cid now2 = (Inr ce, st')
          \<and> calculate_similarity qe ce = Inr sm
          \<and> length (query_analysis r) = length queries
          \<and> (\<forall>j<length queries.
                analyze_query w (sm ! j) (snd (extract_content chunks)) (queries ! j)
                  = Inr (query_analysis r ! j)
              \<and> top_matches (query_analysis r ! j) =
                  map (\<lambda>i. \<lparr>content = original_text (snd (extract_content chunks) ! i),
                             score = sm ! j ! i,
                             type_match = type_md (snd (extract_content chunks) ! i)\<rparr>)
                    (filter (\<lambda>i. 1 / 10 < sm ! j ! i) (take 3 (rev (argsort w (sm ! j))))))"
    if a: "analyze_content_relevance w st queries chunks cid now1 now2 = (Inr r, st')"
      and n: "query_analysis r \<noteq> []"
  proof -
    obtain qe st1 ce sm where
      e1: "encode_texts w st queries True cid now1 = (Inr qe, st1)"
      and e2: "encode_texts w st1 (map PStr (fst (extract_content chunks))) True cid now2 = (Inr ce, st')"
      and cs: "calculate_similarity qe ce = Inr sm"
      and l: "length (query_analysis r) = length queries"
      and rows: "\<forall>j<length queries.
                analyze_query w (sm ! j) (snd (extract_content chunks)) (queries ! j)
                  = Inr (query_analysis r ! j)"
      using report_rows [OF a n] by blast
    have "\<forall>j<length queries.
                analyze_query w (sm ! j) (snd (extract_content chunks)) (queries ! j)
                  = Inr (query_analysis r ! j)
              \<and> top_matches (query_analysis r ! j) =
                  map (\<lambda>i. \<lparr>content = original_text (snd (extract_content chunks) ! i),
                             score = sm ! j ! i,
                             type_match = type_md (snd (extract_content chunks) ! i)\<rparr>)
                    (filter (\<lambda>i. 1 / 10 < sm ! j ! i) (take 3 (rev (argsort w (sm ! j)))))"
      using rows analyze_query_matches by blast
    then show ?thesis using e1 e2 cs l by blast
  qed
  show ?thesis
    using p1 p2 p3 p4 p5 extract_content_metadata [of chunks] preview_length [of body]
    by blast
qed

theorem top_matches_ranked_witness:
  "argsort_ok (argsort world0)
   \<and> top_matches (projr (analyze_query world0 [1 / 5, 9 / 10, 1 / 20, 1 / 2, 3 / 10]
      (snd (extract_content (chunks4 @ [chunk0]))) (PStr ''What is X?''))) =
     [\<lparr>content = ''X is a protocol for Y.'', score = 9 / 10, type_match = PStr ''paragraph''\<rparr>,
      \<lparr>content = ''X is a protocol for Y.'', score = 1 / 2, type_match = PStr ''other''\<rparr>,
      \<lparr>content = ''X is a protocol for Y.'', score = 3 / 10, type_match = PStr ''paragraph''\<rparr>]
   \<and> rev (argsort world0 [1 / 5, 9 / 10, 1 / 20, 1 / 2, 3 / 10]) = [1, 3, 4, 0, 2]
   \<and> argsort_ok (argsort world_reversing)
   \<and> argsort world_reversing [3 / 5, 3 / 5, 0, 7 / 25] = [2, 3, 1, 0]
   \<and> argsort world0 [3 / 5, 3 / 5, 0, 7 / 25] = [2, 3, 0, 1]
   \<and> map type_match (top_matches (projr (analyze_query world_reversing [3 / 5, 3 / 5, 7 / 25, 7 / 25]
        (snd (extract_content chunks4)) (PStr ''What is X?'')))) =
       [PStr ''heading'', PStr ''paragraph'', PStr ''faq'']
   \<and> map type_match (top_matches (projr (analyze_query world0 [3 / 5, 3 / 5, 7 / 25, 7 / 25]
        (snd (extract_content chunks4)) (PStr ''What is X?'')))) =
       [PStr ''paragraph'', PStr ''heading'', PStr ''other'']"
proof -
  have ok: "argsort_ok (argsort world0)"
    using stable_argsort_ok by (simp add: world0_def)
  have ok2: "argsort_ok (argsort world_reversing)"
    using reversing_argsort_ok by (simp add: world_reversing_def)
  have other: "argsort world_reversing [3 / 5, 3 / 5, 0, 7 / 25] = [2, 3, 1, 0]"
    "argsort world0 [3 / 5, 3 / 5, 0, 7 / 25] = [2, 3, 0, 1]"
    by (simp_all add: world_reversing_def world0_def reversing_argsort_def stable_argsort_def
        numeral_3_eq_3 numeral_Bit0)
  have kinds: "map type_match (top_matches (projr (analyze_query world_reversing [3 / 5, 3 / 5, 7 / 25, 7 / 25]
        (snd (extract_content chunks4)) (PStr ''What is X?'')))) =
       [PStr ''heading'', PStr ''paragraph'', PStr ''faq'']"
    "map type_match (top_matches (projr (analyze_query world0 [3 / 5, 3 / 5, 7 / 25, 7 / 25]
        (snd (extract_content chunks4)) (PStr ''What is X?'')))) =
       [PStr ''paragraph'', PStr ''heading'', PStr ''other'']"
    by (simp_all add: eval_defs reversing_argsort_def world_reversing_def world0_def chunks4_def)
  have run: "analyze_query world0 [1 / 5, 9 / 10, 1 / 20, 1 / 2, 3 / 10]
      (snd (extract_content (chunks4 @ [chunk0]))) (PStr ''What is X?'') =
    Inr (projr (analyze_query world0 [1 / 5, 9 / 10, 1 / 20, 1 / 2, 3 / 10]
      (snd (extract_content (chunks4 @ [chunk0]))) (PStr ''What is X?'')))"
    by (simp add: eval_defs world0_def chunks4_def chunk0_def)
  have order: "rev (argsort world0 [1 / 5, 9 / 10, 1 / 20, 1 / 2, 3 / 10]) = [1, 3, 4, 0, 2]"
    by (simp add: world0_def stable_argsort_def numeral_3_eq_3)
  have md: "snd (extract_content (chunks4 @ [chunk0])) =
      [\<lparr>type_md = PStr ''heading'', original_text = ''X is a protocol for Y.'', length_md = 22\<rparr>,
       \<lparr>type_md = PStr ''paragraph'', original_text = ''X is a protocol for Y.'', length_md = 22\<rparr>,
       \<lparr>type_md = PStr ''faq'', original_text = ''X is a protocol for Y.'', length_md = 22\<rparr>,
       \<lparr>type_md = PStr ''other'', original_text = ''X is a protocol for Y.'', length_md = 22\<rparr>,
       \<lparr>type_md = PStr ''paragraph'', original_text = ''X is a protocol for Y.'', length_md = 22\<rparr>]"
    by (simp add: chunks4_def chunk0_def strip_def isspace_def)
  have "top_matches (projr (analyze_query world0 [1 / 5, 9 / 10, 1 / 20, 1 / 2, 3 / 10]
      (snd (extract_content (chunks4 @ [chunk0]))) (PStr ''What is X?''))) =
     [\<lparr>content = ''X is a protocol for Y.'', score = 9 / 10, type_match = PStr ''paragraph''\<rparr>,
      \<lparr>content = ''X is a protocol for Y.'', score = 1 / 2, type_match = PStr ''other''\<rparr>,
      \<lparr>content = ''X is a protocol for Y.'', score = 3 / 10, type_match = PStr ''paragraph''\<rparr>]"
    using top_matches_ranked [OF ok, where row = "[1 / 5, 9 / 10, 1 / 20, 1 / 2, 3 / 10]"
        and md = "snd (extract_content (chunks4 @ [chunk0]))" and q = "PStr ''What is X?''"
        and v = "projr (analyze_query world0 [1 / 5, 9 / 10, 1 / 20, 1 / 2, 3 / 10]
                   (snd (extract_content (chunks4 @ [chunk0]))) (PStr ''What is X?''))"
        and st = service0 and queries = "[]" and chunks = "[]" and cid = "''id''"
        and ?now1.0 = 0 and ?now2.0 = 1 and r = "zero_report []" and st' = service0 and body = "''abc''"]
      run order
    by (simp add: md)
  then show ?thesis using ok order ok2 other kinds by blast
qed

text \<open>
  Claim C8 as stated fails in two places. Four chunks have the same score. With a sort that
  keeps equal scores in index order, the three listed are the last three, the latest first;
  with a sort that returns equal scores in descending index order, they are the first three
  in order. Both sorts return the indices of every row in ascending order of score, which is
  all that numpy fixes of \<^verbatim>\<open>np.argsort\<close>: the order of equal scores is not determined by the
  analyzer. And the preview of a chunk text of 250 characters has 203 characters, not at
  most 200.
\<close>

theorem tie_order_open_preview_203:
  "argsort_ok (argsort world0) \<and> argsort_ok (argsort world_reversing)
   \<and> map type_match (top_matches (hd (query_analysis (projr (fst (analyze_content_relevance world0 service0
       [PStr ''What is X?''] chunks4 ''id'' 0 1)))))) = [PStr ''other'', PStr ''faq'', PStr ''paragraph'']
   \<and> map type_match (top_matches (hd (query_analysis (projr (fst (analyze_content_relevance world_reversing service0
       [PStr ''What is X?''] chunks4 ''id'' 0 1)))))) = [PStr ''heading'', PStr ''paragraph'', PStr ''faq'']
   \<and> map score (top_matches (hd (query_analysis (projr (fst (analyze_content_relevance world0 service0
       [PStr ''What is X?''] chunks4 ''id'' 0 1)))))) = [1, 1, 1]
   \<and> map score (top_matches (hd (query_analysis (projr (fst (analyze_content_relevance world_reversing service0
       [PStr ''What is X?''] chunks4 ''id'' 0 1)))))) = [1, 1, 1]
   \<and> map (\<lambda>m. length (content m)) (top_matches (hd (query_analysis (projr (fst
       (analyze_content_relevance world0 service0 [PStr ''What is X?''] [chunk_long] ''id'' 0 1)))))) = [203]
   \<and> length (best_match (hd (query_analysis (projr (fst
       (analyze_content_relevance world0 service0 [PStr ''What is X?''] [chunk_long] ''id'' 0 1)))))) = 203"
proof -
  have a: "argsort_ok (argsort world0)" "argsort_ok (argsort world_reversing)"
    using stable_argsort_ok reversing_argsort_ok by (simp_all add: world0_def world_reversing_def)
  have b: "map type_match (top_matches (hd (query_analysis (projr (fst (analyze_content_relevance world0 service0
       [PStr ''What is X?''] chunks4 ''id'' 0 1)))))) = [PStr ''other'', PStr ''faq'', PStr ''paragraph'']"
    "map score (top_matches (hd (query_analysis (projr (fst (analyze_content_relevance world0 service0
       [PStr ''What is X?''] chunks4 ''id'' 0 1)))))) = [1, 1, 1]"
    by (simp_all add: eval_defs world0_def service0_def chunks4_def str_nat_digit)
  have c: "map type_match (top_matches (hd (query_analysis (projr (fst (analyze_content_relevance world_reversing service0
       [PStr ''What is X?''] chunks4 ''id'' 0 1)))))) = [PStr ''heading'', PStr ''paragraph'', PStr ''faq'']"
    "map score (top_matches (hd (query_analysis (projr (fst (analyze_content_relevance world_reversing service0
       [PStr ''What is X?''] chunks4 ''id'' 0 1)))))) = [1, 1, 1]"
    by (simp_all add: eval_defs reversing_argsort_def world_reversing_def world0_def service0_def
        chunks4_def str_nat_digit)
  have d: "map (\<lambda>m. length (content m)) (top_matches (hd (query_analysis (projr (fst
       (analyze_content_relevance world0 service0 [PStr ''What is X?''] [chunk_long] ''id'' 0 1)))))) = [203]"
    "length (best_match (hd (query_analysis (projr (fst
       (analyze_content_relevance world0 service0 [PStr ''What is X?''] [chunk_long] ''id'' 0 1)))))) = 203"
    by (simp_all add: eval_defs world0_def service0_def chunk_long_def str_nat_digit)
  show ?thesis using a b c d by blast
qed

section \<open>The cache\<close>

lemma dict_set_absent:
  "map_of d k = None \<Longrightarrow> dict_set k v d = d @ [(k, v)]"
  by (induction d) (auto split: if_splits)

lemma dict_del_absent:
  "k \<notin> fst ` set d \<Longrightarrow> dict_del k d = d"
  by (induction d) (auto simp: dict_del_def)

lemma fold_dict_del_take:
  "distinct (map fst d) \<Longrightarrow> fold dict_del (map fst (take n d)) d = drop n d"
proof (induction d arbitrary: n)
  case Nil
  then show ?case by simp
next
  case (Cons kv d)
  show ?case
  proof (cases n)
    case 0
    then show ?thesis by simp
  next
    case (Suc m)
    have "dict_del (fst kv) (kv # d) = d"
      using Cons.prems by (simp add: dict_del_def) (metis dict_del_absent dict_del_def)
    then show ?thesis using Suc Cons by simp
  qed
qed

lemma evict_oldest_drop:
  "distinct (map fst d) \<Longrightarrow> evict_oldest d = drop 100 d"
  by (simp add: evict_oldest_def take_map fold_dict_del_take)

lemma encode_miss_cache:
  assumes "distinct (map fst (cache st))"
  shows "cache (snd (encode_miss w st cleaned use_cache)) = cache st
       \<or> (use_cache \<and> encode_error w (encode_calls st) = None \<and>
          (map_of (cache st) (hash_tuple w cleaned) = None \<longrightarrow>
             cache (snd (encode_miss w st cleaned use_cache)) =
               (if length (cache st) < 1000 then cache st @ [(hash_tuple w cleaned, map (embed w) cleaned)]
                else drop 100 (cache st @ [(hash_tuple w cleaned, map (embed w) cleaned)]))))"
proof (cases "use_cache \<and> encode_error w (encode_calls st) = None")
  case False
  then show ?thesis by (auto simp: encode_miss_def Let_def split: option.splits)
next
  case True
  have "cache (snd (encode_miss w st cleaned use_cache)) =
               (if length (cache st) < 1000 then cache st @ [(hash_tuple w cleaned, map (embed w) cleaned)]
                else drop 100 (cache st @ [(hash_tuple w cleaned, map (embed w) cleaned)]))"
    if n: "map_of (cache st) (hash_tuple w cleaned) = None"
  proof -
    have "hash_tuple w cleaned \<notin> fst ` set (cache st)"
      using n by (simp add: map_of_eq_None_iff)
    then have "distinct (map fst (cache st @ [(hash_tuple w cleaned, map (embed w) cleaned)]))"
      using assms by simp
    then show ?thesis
      using True n
      by (simp add: encode_miss_def Let_def dict_set_absent evict_oldest_drop del: drop_append)
  qed
  then show ?thesis using True by blast
qed


lemma encode_miss_ok:
  assumes "encode_error w (encode_calls st) = None"
    and "map_of (cache st) (hash_tuple w cleaned) = None"
    and "distinct (map fst (cache st))"
  shows "encode_miss w st cleaned True =
           (Inr (map (embed w) cleaned),
            st\<lparr>encode_calls := Suc (encode_calls st),
               cache := (if length (cache st) < 1000
                         then cache st @ [(hash_tuple w cleaned, map (embed w) cleaned)]
                         else drop 100 (cache st @ [(hash_tuple w cleaned, map (embed w) cleaned)]))\<rparr>)"
proof -
  have "hash_tuple w cleaned \<notin> fst ` set (cache st)"
    using assms(2) by (simp add: map_of_eq_None_iff)
  then have "distinct (map fst (cache st @ [(hash_tuple w cleaned, map (embed w) cleaned)]))"
    using assms(3) by simp
  then show ?thesis
    using assms(1,2)
    by (simp add: encode_miss_def Let_def dict_set_absent evict_oldest_drop del: drop_append)
qed

lemma try_load_loaded:
  "try_load w n le st = (Inr u, st2) \<Longrightarrow> model_loaded st2"
  by (induction n arbitrary: le st) (auto split: option.splits)

lemma initialize_Inr_loaded:
  "initialize w n st = (Inr u, st2) \<Longrightarrow> model_loaded st2"
  by (auto simp: initialize_def try_load_loaded split: if_splits)

lemma init_result_frame:
  "cache (snd (init_result w st cid now)) = cache st
   \<and> encode_calls (snd (init_result w st cid now)) = encode_calls st
   \<and> limiter (snd (init_result w st cid now)) = snd (is_allowed (limiter st) cid now)
   \<and> model_name (snd (init_result w st cid now)) = model_name st
   \<and> (\<forall>u. fst (init_result w st cid now) = Inr u \<longrightarrow> model_loaded (snd (init_result w st cid now)))"
proof -
  have "model_loaded (snd (init_result w st cid now))" if "fst (init_result w st cid now) = Inr u" for u
    using that initialize_Inr_loaded [of w 3 _ u "snd (init_result w st cid now)"]
    by (metis init_result_def prod.collapse)
  then show ?thesis
    using initialize_frame [of w 3 "st\<lparr>limiter := snd (is_allowed (limiter st) cid now)\<rparr>"]
    by (simp add: init_result_def)
qed

lemma init_result_loaded:
  "model_loaded st \<Longrightarrow>
   init_result w st cid now = (Inr (), st\<lparr>limiter := snd (is_allowed (limiter st) cid now)\<rparr>)"
  by (simp add: init_result_def initialize_def)

lemma encode_texts_unfold:
  "encode_texts w st texts uc cid now =
         (if \<not> fst (is_allowed (limiter st) cid now)
          then (Inl (Exception ''Rate limit exceeded. Please try again later.''),
                st\<lparr>limiter := snd (is_allowed (limiter st) cid now)\<rparr>)
          else case fst (init_result w st cid now) of
                 Inl e \<Rightarrow> (Inl e, snd (init_result w st cid now))
               | Inr u \<Rightarrow>
                   if texts = [] \<or> clean_texts texts = [] then (Inr [], snd (init_result w st cid now))
                   else if uc
                     then (case map_of (cache st) (cache_key w texts) of
                             Some v \<Rightarrow> (Inr v, snd (init_result w st cid now))
                           | None \<Rightarrow> encode_miss w (snd (init_result w st cid now)) (clean_texts texts) uc)
                     else encode_miss w (snd (init_result w st cid now)) (clean_texts texts) uc)"
  using init_result_frame [of w st cid now]
  by (auto simp: encode_texts_def init_result_def split_beta Let_def cache_key_def
      split: sum.splits option.splits prod.splits)

lemma encode_miss_result:
  "fst (encode_miss w st cleaned uc) =
     (case encode_error w (encode_calls st) of
        Some m \<Rightarrow> Inl (Exception (''Embedding generation failed: '' @ m))
      | None \<Rightarrow> Inr (map (embed w) cleaned))"
  by (simp add: encode_miss_def Let_def split: option.splits)

lemma encode_miss_frame:
  "model_loaded (snd (encode_miss w st cleaned uc)) = model_loaded st
   \<and> encode_calls (snd (encode_miss w st cleaned uc)) = Suc (encode_calls st)
   \<and> (\<not> uc \<longrightarrow> cache (snd (encode_miss w st cleaned uc)) = cache st)"
  by (simp add: encode_miss_def Let_def split: option.splits)

lemma encode_texts_cache_step:
  assumes "distinct (map fst (cache st))"
  shows "cache (snd (encode_texts w st texts uc cid now)) = cache st
       \<or> (clean_texts texts \<noteq> [] \<and> uc \<and> map_of (cache st) (cache_key w texts) = None
          \<and> fst (encode_texts w st texts uc cid now) = Inr (map (embed w) (clean_texts texts))
          \<and> cache (snd (encode_texts w st texts uc cid now)) =
               (if length (cache st) < 1000 then cache st @ [entry_of w texts]
                else drop 100 (cache st @ [entry_of w texts])))"
proof -
  let ?st2 = "snd (init_result w st cid now)"
  have c: "cache ?st2 = cache st" using init_result_frame [of w st cid now] by simp
  have d: "distinct (map fst (cache ?st2))" using assms c by simp
  show ?thesis
  proof (cases "encode_texts w st texts uc cid now = encode_miss w ?st2 (clean_texts texts) uc
      \<and> clean_texts texts \<noteq> [] \<and> uc \<and> map_of (cache st) (cache_key w texts) = None")
    case False
    then show ?thesis
      using c encode_miss_frame [of w ?st2 "clean_texts texts" uc]
      by (auto simp: encode_texts_unfold [of w st texts uc cid now] split: if_splits sum.splits option.splits)
  next
    case True
    then show ?thesis
      using encode_miss_cache [OF d, of w "clean_texts texts" uc] c
        encode_miss_result [of w ?st2 "clean_texts texts" uc]
      by (auto simp: entry_of_def cache_key_def split: option.splits)
  qed
qed


lemma encode_texts_cache_inv:
  assumes "distinct (map fst (cache st))" and "length (cache st) \<le> 1000"
  shows "distinct (map fst (cache (snd (encode_texts w st texts uc cid now))))
       \<and> length (cache (snd (encode_texts w st texts uc cid now))) \<le> 1000"
proof -
  have k: "cache_key w texts \<notin> fst ` set (cache st)" if "map_of (cache st) (cache_key w texts) = None"
    using that by (simp add: map_of_eq_None_iff)
  have "distinct (map fst (drop 100 (cache st @ [entry_of w texts])))"
    if "map_of (cache st) (cache_key w texts) = None"
  proof -
    have "distinct (map fst (cache st @ [entry_of w texts]))"
      using assms(1) k [OF that] by (simp add: entry_of_def)
    then have "distinct (drop 100 (map fst (cache st @ [entry_of w texts])))"
      by (rule distinct_drop)
    then show ?thesis by (simp only: drop_map)
  qed
  then show ?thesis
    using encode_texts_cache_step [OF assms(1), of w texts uc cid now] assms k
    by (auto simp: entry_of_def simp del: drop_append)
qed

lemma encode_seq_cache:
  assumes "distinct (map fst (cache st))" and "length (cache st) \<le> 1000"
  shows "distinct (map fst (cache (encode_seq w st cs)))
       \<and> length (cache (encode_seq w st cs)) \<le> 1000
       \<and> (\<exists>n cs'. subseq cs' cs \<and>
             cache (encode_seq w st cs) = drop n (cache st @ map (\<lambda>c. entry_of w (fst c)) cs'))"
  using assms
proof (induction cs arbitrary: st)
  case Nil
  have "cache st = drop 0 (cache st @ map (\<lambda>c. entry_of w (fst c)) [])" by simp
  then show ?case using Nil by (metis encode_seq.simps(1) subseq_order.order_refl)
next
  case (Cons c cs)
  obtain texts uc cid now where c: "c = (texts, uc, cid, now)" by (cases c) auto
  let ?st1 = "snd (encode_texts w st texts uc cid now)"
  let ?f = "\<lambda>c. entry_of w (fst c)"
  have inv: "distinct (map fst (cache ?st1))" "length (cache ?st1) \<le> 1000"
    using encode_texts_cache_inv [OF Cons.prems, of w texts uc cid now] by simp_all
  obtain n cs' where s: "subseq cs' cs" and e: "cache (encode_seq w ?st1 cs) = drop n (cache ?st1 @ map ?f cs')"
    using Cons.IH [OF inv] by blast
  have fin: "encode_seq w st (c # cs) = encode_seq w ?st1 cs" by (simp add: c)
  have "\<exists>n cs'. subseq cs' (c # cs) \<and> cache (encode_seq w ?st1 cs) = drop n (cache st @ map ?f cs')"
  proof -
    consider (same) "cache ?st1 = cache st"
      | (app) "cache ?st1 = cache st @ [entry_of w texts]"
      | (ovf) "length (cache st) = 1000" "cache ?st1 = drop 100 (cache st @ [entry_of w texts])"
      using encode_texts_cache_step [OF Cons.prems(1), of w texts uc cid now] Cons.prems(2)
      by (auto split: if_splits)
    then show ?thesis
    proof cases
      case same
      have "subseq cs' (c # cs)" using s by (rule list_emb_Cons)
      then show ?thesis using e same by auto
    next
      case app
      have "subseq (c # cs') (c # cs)" using s by simp
      moreover have "cache (encode_seq w ?st1 cs) = drop n (cache st @ map ?f (c # cs'))"
        using e app by (simp add: c)
      ultimately show ?thesis by blast
    next
      case ovf
      have "subseq (c # cs') (c # cs)" using s by simp
      moreover have "cache (encode_seq w ?st1 cs) = drop (n + 100) (cache st @ map ?f (c # cs'))"
      proof -
        have gen: "drop 100 xs @ ys = drop 100 (xs @ ys)" if "100 \<le> length xs"
          for xs ys :: "(64 word \<times> real list list) list"
          using that by simp
        have "100 \<le> length (cache st @ [entry_of w texts])" using ovf(1) by simp
        then have "drop 100 (cache st @ [entry_of w texts]) @ map ?f cs' =
              drop 100 ((cache st @ [entry_of w texts]) @ map ?f cs')"
          by (rule gen)
        also have "(cache st @ [entry_of w texts]) @ map ?f cs' = cache st @ map ?f (c # cs')"
          by (simp add: c)
        finally have "cache (encode_seq w ?st1 cs) = drop n (drop 100 (cache st @ map ?f (c # cs')))"
          using e ovf(2) by (simp only:)
        then show ?thesis by (simp only: drop_drop)
      qed
      ultimately show ?thesis by blast
    qed
  qed
  then show ?case
    using Cons.IH [OF inv] fin by simp
qed


text \<open>
  Claim C7. A cache of at most 1000 entries (with distinct keys, as a dict has) has at most
  1000 entries after any call of \<^verbatim>\<open>encode_texts\<close>, and after every prefix of any run of
  calls. A call leaves the cache as it was, or appends the entry of its batch; when that
  makes 1001 entries, the first 100 in insertion order are removed. After a run of calls
  the cache is a suffix of the initial cache followed by the entries inserted during the
  run, in the order of the calls: whatever has been evicted was inserted before
  everything that remains.
\<close>

theorem cache_bounded_fifo:
  assumes "distinct (map fst (cache st))" and "length (cache st) \<le> 1000"
  shows "length (cache (snd (encode_texts w st texts uc cid now))) \<le> 1000
     \<and> distinct (map fst (cache (snd (encode_texts w st texts uc cid now))))
     \<and> (cache (snd (encode_texts w st texts uc cid now)) = cache st
        \<or> fst (encode_texts w st texts uc cid now) = Inr (map (embed w) (clean_texts texts))
          \<and> cache (snd (encode_texts w st texts uc cid now)) =
               (if length (cache st) < 1000 then cache st @ [entry_of w texts]
                else drop 100 (cache st @ [entry_of w texts])))
     \<and> (\<forall>k. length (cache (encode_seq w st (take k cs))) \<le> 1000)
     \<and> (\<exists>n cs'. subseq cs' cs \<and>
           cache (encode_seq w st cs) = drop n (cache st @ map (\<lambda>c. entry_of w (fst c)) cs'))"
proof -
  have a: "length (cache (snd (encode_texts w st texts uc cid now))) \<le> 1000
     \<and> distinct (map fst (cache (snd (encode_texts w st texts uc cid now))))"
    using encode_texts_cache_inv [OF assms, of w texts uc cid now] by simp
  have b: "cache (snd (encode_texts w st texts uc cid now)) = cache st
        \<or> fst (encode_texts w st texts uc cid now) = Inr (map (embed w) (clean_texts texts))
          \<and> cache (snd (encode_texts w st texts uc cid now)) =
               (if length (cache st) < 1000 then cache st @ [entry_of w texts]
                else drop 100 (cache st @ [entry_of w texts]))"
    using encode_texts_cache_step [OF assms(1), of w texts uc cid now] by blast
  have c: "\<forall>k. length (cache (encode_seq w st (take k cs))) \<le> 1000"
    using encode_seq_cache [OF assms] by blast
  have d: "\<exists>n cs'. subseq cs' cs \<and>
           cache (encode_seq w st cs) = drop n (cache st @ map (\<lambda>c. entry_of w (fst c)) cs')"
    using encode_seq_cache [OF assms] by blast
  show ?thesis using a b c d by blast
qed

lemma word_of_nat_small_inj:
  fixes x y :: nat
  assumes "x < 1024" and "y < 1024" and "(word_of_nat x :: 64 word) = word_of_nat y"
  shows "x = y"
proof -
  have p: "(2::nat) ^ 10 = 1024" by simp
  have "(2::nat) ^ 10 \<le> 2 ^ 64" by (rule power_increasing) simp_all
  then have b: "x < 2 ^ 64" "y < 2 ^ 64" using assms(1,2) p by linarith+
  have tx: "take_bit 64 x = x" using b(1) by (rule take_bit_nat_eq_self)
  have ty: "take_bit 64 y = y" using b(2) by (rule take_bit_nat_eq_self)
  have e: "take_bit 64 x = take_bit 64 y"
    using assms(3) word_of_nat_eq_iff [of x y, where 'a = 64] by simp
  have "x = take_bit 64 x" using tx by (rule sym)
  also have "\<dots> = take_bit 64 y" by (rule e)
  also have "\<dots> = y" by (rule ty)
  finally show ?thesis .
qed

lemma service_full_keys:
  "distinct (map fst (cache service_full)) \<and> length (cache service_full) = 1000
   \<and> map_of (cache service_full) 10 = None"
proof -
  have inj: "inj_on (word_of_nat :: nat \<Rightarrow> 64 word) {11..<1011}"
  proof (rule inj_onI)
    fix x y :: nat
    assume "x \<in> {11..<1011}" "y \<in> {11..<1011}" and eq: "(word_of_nat x :: 64 word) = word_of_nat y"
    then have "x < 1024" "y < 1024" by simp_all
    then show "x = y" using eq by (rule word_of_nat_small_inj)
  qed
  have m: "map fst (cache service_full) = map word_of_nat [11..<1011]"
    by (simp add: service_full_def full_cache_def comp_def del: upt_rec_numeral)
  have d: "distinct (map fst (cache service_full))"
    unfolding m using inj by (simp add: distinct_map del: upt_rec_numeral)
  have n: "(10 :: 64 word) \<notin> word_of_nat ` {11..<1011}"
  proof
    assume "(10 :: 64 word) \<in> word_of_nat ` {11..<1011}"
    then obtain x :: nat where x: "x \<in> {11..<1011}" "(10 :: 64 word) = word_of_nat x" by auto
    have "(word_of_nat x :: 64 word) = word_of_nat 10" using x(2) by simp
    moreover have "x < 1024" using x(1) by simp
    ultimately have "x = 10" using word_of_nat_small_inj [of x 10] by simp
    then show False using x(1) by simp
  qed
  have "fst ` set (cache service_full) = word_of_nat ` {11..<1011}"
    using m by (metis atLeastLessThan_upt list.set_map)
  then have "map_of (cache service_full) 10 = None"
    using n by (simp only: map_of_eq_None_iff not_False_eq_True)
  moreover have "length (cache service_full) = 1000"
    by (simp add: service_full_def full_cache_def del: upt_rec_numeral)
  ultimately show ?thesis using d by simp
qed

theorem cache_bounded_fifo_witness:
  "length (cache (snd (encode_texts world0 service_full [PStr ''What is X?''] True ''id'' 0))) = 901
   \<and> cache (snd (encode_texts world0 service_full [PStr ''What is X?''] True ''id'' 0)) =
       drop 100 (cache service_full) @ [(10, [[1, 0]])]
   \<and> length (cache (encode_seq world0 service_full [([PStr ''What is X?''], True, ''id'', 0)])) \<le> 1000"
proof -
  let ?st2 = "service_full\<lparr>limiter := snd (is_allowed (limiter service_full) ''id'' 0)\<rparr>"
  have h: "distinct (map fst (cache service_full))" "length (cache service_full) \<le> 1000"
    "length (cache service_full) = 1000" "map_of (cache service_full) 10 = None"
    using service_full_keys by simp_all
  have k: "cache_key world0 [PStr ''What is X?''] = 10" "clean_texts [PStr ''What is X?''] = [''What is X?'']"
    "hash_tuple world0 [''What is X?''] = 10"
    by (simp_all add: cache_key_def world0_def strip_def isspace_def)
  have adm: "fst (is_allowed (limiter service_full) ''id'' 0)"
    by (simp add: is_allowed_def service_full_def service0_def)
  have ld: "model_loaded service_full" by (simp add: service_full_def)
  have m: "encode_miss world0 ?st2 [''What is X?''] True =
           (Inr (map (embed world0) [''What is X?'']),
            ?st2\<lparr>encode_calls := Suc (encode_calls ?st2),
               cache := (if length (cache ?st2) < 1000
                         then cache ?st2 @ [(hash_tuple world0 [''What is X?''], map (embed world0) [''What is X?''])]
                         else drop 100 (cache ?st2 @ [(hash_tuple world0 [''What is X?''], map (embed world0) [''What is X?''])]))\<rparr>)"
    by (rule encode_miss_ok) (simp_all add: k h, simp add: world0_def)
  have c: "cache (snd (encode_texts world0 service_full [PStr ''What is X?''] True ''id'' 0)) =
       drop 100 (cache service_full) @ [(10, [[1, 0]])]"
    using adm h(3,4) k
    by (simp add: encode_texts_unfold init_result_loaded [OF ld] m) (simp add: world0_def)
  show ?thesis
    using cache_bounded_fifo [OF h(1,2), of world0 "[PStr ''What is X?'']" True "''id''" 0
        "[([PStr ''What is X?''], True, ''id'', 0)]"] c h(3)
    by simp
qed

section \<open>The cache round trip\<close>

lemma encode_texts_hit:
  assumes "fst (is_allowed (limiter st) cid now)" and "model_loaded st"
    and "clean_texts texts \<noteq> []" and "map_of (cache st) (cache_key w texts) = Some v"
  shows "encode_texts w st texts True cid now =
           (Inr v, st\<lparr>limiter := snd (is_allowed (limiter st) cid now)\<rparr>)"
proof -
  have "texts \<noteq> []" using assms(3) by auto
  then show ?thesis
    using assms by (simp add: encode_texts_unfold init_result_loaded)
qed

lemma encode_texts_empty:
  assumes "fst (is_allowed (limiter st) cid now)" and "model_loaded st"
    and "clean_texts texts = []"
  shows "encode_texts w st texts uc cid now =
           (Inr [], st\<lparr>limiter := snd (is_allowed (limiter st) cid now)\<rparr>)"
  using assms by (simp add: encode_texts_unfold init_result_loaded)

lemma encode_texts_miss:
  assumes "fst (is_allowed (limiter st) cid now)" and "fst (init_result w st cid now) = Inr u"
    and "clean_texts texts \<noteq> []" and "map_of (cache st) (cache_key w texts) = None"
  shows "encode_texts w st texts True cid now =
           encode_miss w (snd (init_result w st cid now)) (clean_texts texts) True"
proof -
  have "texts \<noteq> []" using assms(3) by auto
  then show ?thesis
    using assms by (simp add: encode_texts_unfold)
qed

lemma map_of_inserted:
  assumes "map_of c k = None"
  shows "map_of (if length c < 1000 then c @ [(k, v)] else drop 100 (c @ [(k, v)])) k = Some v"
proof -
  have n: "k \<notin> fst ` set c" using assms by (simp add: map_of_eq_None_iff)
  have "set (drop 100 c) \<subseteq> set c" by (rule set_drop_subset)
  then have "k \<notin> fst ` set (drop 100 c)"
    using n by blast
  then have d: "map_of (drop 100 c) k = None" by (simp add: map_of_eq_None_iff)
  have "map_of (drop 100 c @ [(k, v)]) k = Some v"
    using d by (simp add: map_add_def)
  moreover have "map_of (c @ [(k, v)]) k = Some v"
    using assms by (simp add: map_add_def)
  ultimately show ?thesis by simp
qed

lemma encode_texts_stores:
  assumes "encode_texts w st texts True cid now = (Inr v, st1)"
    and "distinct (map fst (cache st))"
  shows "model_loaded st1 \<and> (clean_texts texts = [] \<longrightarrow> v = [])
       \<and> (clean_texts texts \<noteq> [] \<longrightarrow> map_of (cache st1) (cache_key w texts) = Some v)"
proof -
  let ?st2 = "snd (init_result w st cid now)"
  have adm: "fst (is_allowed (limiter st) cid now)"
    using assms(1) by (auto simp: encode_texts_unfold split: if_splits)
  obtain u where u: "fst (init_result w st cid now) = Inr u"
    using assms(1) adm by (cases "fst (init_result w st cid now)") (auto simp: encode_texts_unfold)
  have fr: "cache ?st2 = cache st" "model_loaded ?st2"
    using init_result_frame [of w st cid now] u by simp_all
  show ?thesis
  proof (cases "texts = [] \<or> clean_texts texts = []")
    case True
    then have "clean_texts texts = []" by auto
    then show ?thesis
      using assms(1) adm u fr by (auto simp: encode_texts_unfold)
  next
    case ne: False
    show ?thesis
    proof (cases "map_of (cache st) (cache_key w texts)")
      case (Some v')
      then show ?thesis
        using assms(1) adm u fr ne by (auto simp: encode_texts_unfold)
    next
      case None
      have m: "encode_miss w ?st2 (clean_texts texts) True = (Inr v, st1)"
        using assms(1) adm u ne None by (simp add: encode_texts_unfold)
      have ee: "encode_error w (encode_calls ?st2) = None"
        using m encode_miss_result [of w ?st2 "clean_texts texts" True]
        by (cases "encode_error w (encode_calls ?st2)") auto
      have n2: "map_of (cache ?st2) (hash_tuple w (clean_texts texts)) = None"
        using None fr by (simp add: cache_key_def)
      have d2: "distinct (map fst (cache ?st2))" using assms(2) fr by simp
      have "v = map (embed w) (clean_texts texts)"
        and "cache st1 = (if length (cache ?st2) < 1000
                         then cache ?st2 @ [(hash_tuple w (clean_texts texts), map (embed w) (clean_texts texts))]
                         else drop 100 (cache ?st2 @ [(hash_tuple w (clean_texts texts), map (embed w) (clean_texts texts))]))"
        and "model_loaded st1"
        using m encode_miss_ok [OF ee n2 d2] fr by auto
      then show ?thesis
        using map_of_inserted [OF n2] ne by (simp add: cache_key_def)
    qed
  qed
qed

lemma encode_texts_round_trip:
  assumes "encode_texts w st texts True cid now = (Inr v, st1)"
    and "distinct (map fst (cache st))"
    and "fst (is_allowed (limiter st1) cid' now')"
    and "clean_texts texts' = clean_texts texts
         \<or> (clean_texts texts \<noteq> [] \<and> clean_texts texts' \<noteq> [] \<and> cache_key w texts' = cache_key w texts)"
  shows "encode_texts w st1 texts' True cid' now' =
           (Inr v, st1\<lparr>limiter := snd (is_allowed (limiter st1) cid' now')\<rparr>)"
proof -
  note s = encode_texts_stores [OF assms(1,2)]
  have k: "clean_texts texts' = clean_texts texts \<Longrightarrow> cache_key w texts' = cache_key w texts"
    by (simp add: cache_key_def)
  show ?thesis
  proof (cases "clean_texts texts' = []")
    case True
    then have "clean_texts texts = []" using assms(4) by auto
    then have "v = []" using s by simp
    then show ?thesis using encode_texts_empty [OF assms(3) _ True] s by simp
  next
    case False
    then have "clean_texts texts \<noteq> []" "cache_key w texts' = cache_key w texts"
      using assms(4) k by auto
    then have "map_of (cache st1) (cache_key w texts') = Some v" using s by simp
    then show ?thesis using encode_texts_hit [OF assms(3) _ False] s by simp
  qed
qed


text \<open>
  Claim C3, as amended. After a call of \<^verbatim>\<open>encode_texts\<close> with caching on that returned
  the vectors \<open>v\<close>, a second call that the limiter admits, for a batch with the same
  cleaned sequence (or, both being non-empty, with the same hash of the cleaned sequence),
  returns \<open>v\<close> again; the service changes in its rate window only, so the model is not
  invoked and the cache is as it was. Two batches have the same cache key exactly when the
  hashes of their cleaned sequences are equal: always when the cleaned sequences are
  identical and in the same order.
\<close>

theorem cache_round_trip:
  assumes "encode_texts w st texts True cid now = (Inr v, st1)"
    and "distinct (map fst (cache st))"
    and "fst (is_allowed (limiter st1) cid' now')"
  shows "(clean_texts texts' = clean_texts texts \<longrightarrow>
            encode_texts w st1 texts' True cid' now' =
              (Inr v, st1\<lparr>limiter := snd (is_allowed (limiter st1) cid' now')\<rparr>))
       \<and> (clean_texts texts \<noteq> [] \<and> clean_texts texts' \<noteq> [] \<and>
            hash_tuple w (clean_texts texts') = hash_tuple w (clean_texts texts) \<longrightarrow>
            encode_texts w st1 texts' True cid' now' =
              (Inr v, st1\<lparr>limiter := snd (is_allowed (limiter st1) cid' now')\<rparr>))
       \<and> encode_calls (st1\<lparr>limiter := snd (is_allowed (limiter st1) cid' now')\<rparr>) = encode_calls st1
       \<and> cache (st1\<lparr>limiter := snd (is_allowed (limiter st1) cid' now')\<rparr>) = cache st1
       \<and> (cache_key w texts' = cache_key w texts \<longleftrightarrow>
            hash_tuple w (clean_texts texts') = hash_tuple w (clean_texts texts))"
proof -
  have a: "encode_texts w st1 texts' True cid' now' =
              (Inr v, st1\<lparr>limiter := snd (is_allowed (limiter st1) cid' now')\<rparr>)"
    if "clean_texts texts' = clean_texts texts"
    using encode_texts_round_trip [OF assms] that by blast
  have b: "encode_texts w st1 texts' True cid' now' =
              (Inr v, st1\<lparr>limiter := snd (is_allowed (limiter st1) cid' now')\<rparr>)"
    if "clean_texts texts \<noteq> [] \<and> clean_texts texts' \<noteq> [] \<and>
            hash_tuple w (clean_texts texts') = hash_tuple w (clean_texts texts)"
    using encode_texts_round_trip [OF assms, of texts'] that by (simp add: cache_key_def)
  show ?thesis
    using a b by (simp add: cache_key_def)
qed

theorem cache_round_trip_witness:
  "fst (encode_texts world0 (snd (encode_texts world0 service0 [PStr ''What is X?''] True ''id'' 0))
         [PStr ''  What is X?  '', PInt 7] True ''id'' 1) = Inr [[1, 0]]
   \<and> encode_calls (snd (encode_texts world0 service0 [PStr ''What is X?''] True ''id'' 0)) = 1
   \<and> encode_calls (snd (encode_texts world0 (snd (encode_texts world0 service0 [PStr ''What is X?''] True ''id'' 0))
         [PStr ''  What is X?  '', PInt 7] True ''id'' 1)) = 1"
proof -
  have first: "encode_texts world0 service0 [PStr ''What is X?''] True ''id'' 0 =
      (Inr [[1, 0]], snd (encode_texts world0 service0 [PStr ''What is X?''] True ''id'' 0))"
    and n: "encode_calls (snd (encode_texts world0 service0 [PStr ''What is X?''] True ''id'' 0)) = 1"
    and adm: "fst (is_allowed (limiter (snd (encode_texts world0 service0 [PStr ''What is X?''] True ''id'' 0))) ''id'' 1)"
    by (simp_all add: encode_texts_def encode_miss_def initialize_def is_allowed_def Let_def
        strip_def isspace_def numeral_3_eq_3 world0_def service0_def)
  have d: "distinct (map fst (cache service0))" by (simp add: service0_def)
  have c: "clean_texts [PStr ''  What is X?  '', PInt 7] = clean_texts [PStr ''What is X?'']"
    by (simp add: strip_def isspace_def)
  show ?thesis
    using cache_round_trip [OF first d adm, of "[PStr ''  What is X?  '', PInt 7]"] c n
    by simp
qed

lemma hash_collision:
  fixes h :: "string list \<Rightarrow> 64 word"
  shows "\<exists>m n. m \<noteq> n \<and> h (replicate (Suc m) ''a'') = h (replicate (Suc n) ''a'')"
proof (rule ccontr)
  assume "\<not> ?thesis"
  then have "inj (\<lambda>n. h (replicate (Suc n) ''a''))"
    by (auto simp: inj_on_def)
  moreover have "finite (range (\<lambda>n. h (replicate (Suc n) ''a'')))"
    by simp
  ultimately have "finite (UNIV :: nat set)"
    by (rule finite_imageD [rotated])
  then show False by simp
qed

lemma clean_texts_replicate:
  "clean_texts (replicate n (PStr ''a'')) = replicate n ''a''"
  by (induction n) (simp_all add: strip_def isspace_def)

lemma replicate_neq:
  assumes "m \<noteq> n"
  shows "replicate m x \<noteq> replicate n x"
proof
  assume "replicate m x = replicate n x"
  then have "length (replicate m x) = length (replicate n x)" by (rule arg_cong)
  then show False using assms by simp
qed

lemma hash_collision_ordered:
  fixes h :: "string list \<Rightarrow> 64 word"
  shows "\<exists>m n. m < n \<and> h (replicate (Suc m) ''a'') = h (replicate (Suc n) ''a'')"
proof -
  obtain m n where mn: "m \<noteq> n" "h (replicate (Suc m) ''a'') = h (replicate (Suc n) ''a'')"
    using hash_collision [of h] by blast
  show ?thesis
  proof (cases "m < n")
    case True
    then show ?thesis using mn(2) by blast
  next
    case False
    then have "n < m" using mn(1) by simp
    then show ?thesis using mn(2) [symmetric] by blast
  qed
qed

lemma collision_serves_first:
  fixes h :: "string list \<Rightarrow> 64 word"
  assumes "h (replicate (Suc m) ''a'') = h (replicate (Suc n) ''a'')"
  shows "fst (encode_texts (world0\<lparr>hash_tuple := h\<rparr>) service0 (replicate (Suc m) (PStr ''a'')) True ''id'' 0) =
           Inr (replicate (Suc m) [1, 0])
       \<and> encode_calls (snd (encode_texts (world0\<lparr>hash_tuple := h\<rparr>) service0
            (replicate (Suc m) (PStr ''a'')) True ''id'' 0)) = 1
       \<and> encode_texts (world0\<lparr>hash_tuple := h\<rparr>)
            (snd (encode_texts (world0\<lparr>hash_tuple := h\<rparr>) service0 (replicate (Suc m) (PStr ''a'')) True ''id'' 0))
            (replicate (Suc n) (PStr ''a'')) True ''id'' 1 =
           (Inr (replicate (Suc m) [1, 0]),
            (snd (encode_texts (world0\<lparr>hash_tuple := h\<rparr>) service0 (replicate (Suc m) (PStr ''a'')) True ''id'' 0))
              \<lparr>limiter := snd (is_allowed (limiter (snd (encode_texts (world0\<lparr>hash_tuple := h\<rparr>) service0
                   (replicate (Suc m) (PStr ''a'')) True ''id'' 0))) ''id'' 1)\<rparr>)"
proof -
  let ?w = "world0\<lparr>hash_tuple := h\<rparr>"
  let ?a = "replicate (Suc m) (PStr ''a'')"
  let ?b = "replicate (Suc n) (PStr ''a'')"
  let ?va = "map (embed ?w) (clean_texts ?a)"
  let ?r1 = "encode_texts ?w service0 ?a True ''id'' 0"
  have ca: "clean_texts ?a = replicate (Suc m) ''a''" and cb: "clean_texts ?b = replicate (Suc n) ''a''"
    by (rule clean_texts_replicate)+
  have va: "?va = replicate (Suc m) [1, 0]"
    unfolding ca by (simp add: world0_def)
  have key: "cache_key ?w ?b = cache_key ?w ?a"
    unfolding cache_key_def ca cb using assms by simp
  have adm0: "fst (is_allowed (limiter service0) ''id'' 0)"
    by (simp add: is_allowed_def service0_def)
  have ini: "init_result ?w service0 ''id'' 0 =
      (Inr (), service0\<lparr>limiter := snd (is_allowed (limiter service0) ''id'' 0),
                        model_loaded := True, load_calls := 1\<rparr>)"
    by (simp add: init_result_def initialize_def numeral_3_eq_3 world0_def service0_def)
  have nea: "clean_texts ?a \<noteq> []" and neb: "clean_texts ?b \<noteq> []"
    unfolding ca cb by simp_all
  have "encode_texts ?w service0 ?a True ''id'' 0 =
          encode_miss ?w (snd (init_result ?w service0 ''id'' 0)) (clean_texts ?a) True"
    by (rule encode_texts_miss [OF adm0 _ nea]) (simp_all add: ini, simp add: service0_def)
  then have r1: "fst ?r1 = Inr ?va" and n1: "encode_calls (snd ?r1) = 1"
    by (simp_all add: encode_miss_result encode_miss_frame ini)
       (simp_all add: world0_def service0_def)
  have first: "?r1 = (Inr ?va, snd ?r1)"
    using r1 by (metis prod.collapse)
  have d: "distinct (map fst (cache service0))" by (simp add: service0_def)
  have adm1: "fst (is_allowed (limiter (snd ?r1)) ''id'' 1)"
    by (simp add: encode_texts_limiter) (simp add: is_allowed_def service0_def)
  have second: "encode_texts ?w (snd ?r1) ?b True ''id'' 1 =
      (Inr ?va, (snd ?r1)\<lparr>limiter := snd (is_allowed (limiter (snd ?r1)) ''id'' 1)\<rparr>)"
  proof -
    have "clean_texts ?b = clean_texts ?a
         \<or> (clean_texts ?a \<noteq> [] \<and> clean_texts ?b \<noteq> [] \<and> cache_key ?w ?b = cache_key ?w ?a)"
      using nea neb key by blast
    then show ?thesis by (rule encode_texts_round_trip [OF first d adm1])
  qed
  show ?thesis
    using r1 n1 second unfolding va by (intro conjI)
qed

text \<open>
  Claim C3 as stated fails in the direction "only if": the key is a 64-bit hash, and there
  are more batches than keys. Whatever the hash function, two batches with different
  cleaned sequences (a different number of copies of the text \<^verbatim>\<open>a\<close>) have the same key,
  and encoding the second after the first returns the vectors of the first without
  invoking the model again.
\<close>

theorem distinct_batches_share_entry:
  "\<forall>h. \<exists>a b. clean_texts a \<noteq> clean_texts b
       \<and> cache_key (world0\<lparr>hash_tuple := h\<rparr>) a = cache_key (world0\<lparr>hash_tuple := h\<rparr>) b
       \<and> fst (encode_texts (world0\<lparr>hash_tuple := h\<rparr>) service0 a True ''id'' 0) =
             Inr (map (embed world0) (clean_texts a))
       \<and> fst (encode_texts (world0\<lparr>hash_tuple := h\<rparr>)
               (snd (encode_texts (world0\<lparr>hash_tuple := h\<rparr>) service0 a True ''id'' 0)) b True ''id'' 1) =
             Inr (map (embed world0) (clean_texts a))
       \<and> map (embed world0) (clean_texts a) \<noteq> map (embed world0) (clean_texts b)
       \<and> encode_calls (snd (encode_texts (world0\<lparr>hash_tuple := h\<rparr>)
               (snd (encode_texts (world0\<lparr>hash_tuple := h\<rparr>) service0 a True ''id'' 0)) b True ''id'' 1)) = 1"
proof
  fix h :: "string list \<Rightarrow> 64 word"
  let ?w = "world0\<lparr>hash_tuple := h\<rparr>"
  obtain m n where mn: "m < n" "h (replicate (Suc m) ''a'') = h (replicate (Suc n) ''a'')"
    using hash_collision_ordered [of h] by blast
  let ?a = "replicate (Suc m) (PStr ''a'')"
  let ?b = "replicate (Suc n) (PStr ''a'')"
  let ?r1 = "encode_texts ?w service0 ?a True ''id'' 0"
  have ca: "clean_texts ?a = replicate (Suc m) ''a''" and cb: "clean_texts ?b = replicate (Suc n) ''a''"
    by (rule clean_texts_replicate)+
  have va: "map (embed world0) (clean_texts ?a) = replicate (Suc m) [1, 0]"
    and vb: "map (embed world0) (clean_texts ?b) = replicate (Suc n) [1, 0]"
    unfolding ca cb by (simp_all add: world0_def)
  have ne: "clean_texts ?a \<noteq> clean_texts ?b"
    unfolding ca cb using mn(1) by (intro replicate_neq) simp
  have diff: "map (embed world0) (clean_texts ?a) \<noteq> map (embed world0) (clean_texts ?b)"
    unfolding va vb using mn(1) by (intro replicate_neq) simp
  have key: "cache_key ?w ?a = cache_key ?w ?b"
    unfolding cache_key_def ca cb using mn(2) by simp
  note c = collision_serves_first [OF mn(2)]
  have r1: "fst ?r1 = Inr (map (embed world0) (clean_texts ?a))"
    using c va by simp
  have r2: "fst (encode_texts ?w (snd ?r1) ?b True ''id'' 1) = Inr (map (embed world0) (clean_texts ?a))"
    and n2: "encode_calls (snd (encode_texts ?w (snd ?r1) ?b True ''id'' 1)) = 1"
    using c va by simp_all
  show "\<exists>a b. clean_texts a \<noteq> clean_texts b
       \<and> cache_key ?w a = cache_key ?w b
       \<and> fst (encode_texts ?w service0 a True ''id'' 0) = Inr (map (embed world0) (clean_texts a))
       \<and> fst (encode_texts ?w (snd (encode_texts ?w service0 a True ''id'' 0)) b True ''id'' 1) =
             Inr (map (embed world0) (clean_texts a))
       \<and> map (embed world0) (clean_texts a) \<noteq> map (embed world0) (clean_texts b)
       \<and> encode_calls (snd (encode_texts ?w
               (snd (encode_texts ?w service0 a True ''id'' 0)) b True ''id'' 1)) = 1"
    using ne key r1 r2 diff n2 by (intro exI [of _ ?a] exI [of _ ?b]) (intro conjI)
qed

section \<open>Queries and rows\<close>

lemma clean_texts_valid:
  "list_all valid_query qs \<Longrightarrow> clean_texts qs = map (\<lambda>q. take 1000 (strip (str_of q))) qs"
  by (induction qs rule: clean_texts.induct) auto

lemma clean_texts_length_le:
  "length (clean_texts qs) \<le> length qs"
  by (induction qs rule: clean_texts.induct) auto

lemma clean_texts_dropped:
  "\<not> list_all valid_query qs \<Longrightarrow> length (clean_texts qs) < length qs"
proof (induction qs)
  case Nil
  then show ?case by simp
next
  case (Cons q qs)
  have le: "length (clean_texts qs) \<le> length qs" by (rule clean_texts_length_le)
  show ?case
  proof (cases "valid_query q")
    case True
    then obtain s where q: "q = PStr s" "strip s \<noteq> []" by (cases q) auto
    have "length (clean_texts qs) < length qs" using Cons True by simp
    then show ?thesis using q by simp
  next
    case False
    then have "clean_texts (q # qs) = clean_texts qs" by (cases q) auto
    then show ?thesis using le by simp
  qed
qed

lemma encode_texts_sound:
  assumes "encode_texts w st texts True cid now = (Inr v, st1)"
    and "map_of (cache st) (cache_key w texts) = None
         \<or> map_of (cache st) (cache_key w texts) = Some (map (embed w) (clean_texts texts))"
  shows "v = map (embed w) (clean_texts texts)"
proof -
  let ?st2 = "snd (init_result w st cid now)"
  have adm: "fst (is_allowed (limiter st) cid now)"
    using assms(1) by (auto simp: encode_texts_unfold split: if_splits)
  obtain u where u: "fst (init_result w st cid now) = Inr u"
    using assms(1) adm by (cases "fst (init_result w st cid now)") (auto simp: encode_texts_unfold)
  show ?thesis
  proof (cases "texts = [] \<or> clean_texts texts = []")
    case True
    then have "clean_texts texts = []" by auto
    then show ?thesis using assms(1) adm u by (auto simp: encode_texts_unfold)
  next
    case ne: False
    show ?thesis
    proof (cases "map_of (cache st) (cache_key w texts)")
      case (Some v')
      then show ?thesis
        using assms adm u ne by (auto simp: encode_texts_unfold)
    next
      case None
      have "encode_miss w ?st2 (clean_texts texts) True = (Inr v, st1)"
        using assms(1) adm u ne None by (simp add: encode_texts_unfold)
      then show ?thesis
        using encode_miss_result [of w ?st2 "clean_texts texts" True]
        by (cases "encode_error w (encode_calls ?st2)") auto
    qed
  qed
qed

lemma calculate_similarity_rows:
  assumes "calculate_similarity qe ce = Inr sm"
  shows "(nd_size qe = 0 \<or> nd_size ce = 0 \<longrightarrow> sm = [])
       \<and> (nd_size qe \<noteq> 0 \<and> nd_size ce \<noteq> 0 \<longrightarrow>
            sm = map (\<lambda>x. map (\<lambda>y. dot (normalize x) (normalize y)) ce) qe)"
  using assms by (auto simp: calculate_similarity_def cosine_similarity_def split: if_splits)

lemma analyze_queries_short:
  "i \<le> length sm \<Longrightarrow> length sm < i + length qs \<Longrightarrow>
   \<exists>e. analyze_queries w sm md i qs = Inl e
      \<and> (e = row_missing (length sm)
          \<or> (\<exists>j. i + j < length sm \<and> analyze_query w (sm ! (i + j)) md (qs ! j) = Inl e))"
proof (induction qs arbitrary: i)
  case Nil
  then show ?case by simp
next
  case (Cons q qs)
  show ?case
  proof (cases "i < length sm")
    case False
    then have "i = length sm" using Cons.prems(1) by simp
    then show ?thesis by (simp add: row_missing_def)
  next
    case True
    show ?thesis
    proof (cases "analyze_query w (sm ! i) md q")
      case (Inl e)
      then have "analyze_queries w sm md i (q # qs) = Inl e" using True by simp
      moreover have "i + 0 < length sm \<and> analyze_query w (sm ! (i + 0)) md ((q # qs) ! 0) = Inl e"
        using True Inl by simp
      ultimately show ?thesis by blast
    next
      case (Inr v)
      have "Suc i \<le> length sm" "length sm < Suc i + length qs"
        using True Cons.prems(2) by simp_all
      then obtain e where e: "analyze_queries w sm md (Suc i) qs = Inl e"
        and c: "e = row_missing (length sm)
          \<or> (\<exists>j. Suc i + j < length sm \<and> analyze_query w (sm ! (Suc i + j)) md (qs ! j) = Inl e)"
        using Cons.IH by blast
      have r: "analyze_queries w sm md i (q # qs) = Inl e" using True Inr e by simp
      show ?thesis
      proof (cases "e = row_missing (length sm)")
        case True
        then show ?thesis using r by blast
      next
        case False
        then obtain j where "Suc i + j < length sm" "analyze_query w (sm ! (Suc i + j)) md (qs ! j) = Inl e"
          using c by blast
        then have "i + Suc j < length sm \<and> analyze_query w (sm ! (i + Suc j)) md ((q # qs) ! Suc j) = Inl e"
          by simp
        then show ?thesis using r by blast
      qed
    qed
  qed
qed

lemma analyze_queries_error_origin:
  "i + length qs \<le> length sm \<Longrightarrow> analyze_queries w sm md i qs = Inl e \<Longrightarrow>
   \<exists>j<length qs. analyze_query w (sm ! (i + j)) md (qs ! j) = Inl e"
proof (induction qs arbitrary: i)
  case Nil
  then show ?case by simp
next
  case (Cons q qs)
  have i: "i < length sm" using Cons.prems(1) by simp
  show ?case
  proof (cases "analyze_query w (sm ! i) md q")
    case (Inl e')
    then have "e' = e" using Cons.prems(2) i by simp
    then have "analyze_query w (sm ! (i + 0)) md ((q # qs) ! 0) = Inl e" using Inl by simp
    then show ?thesis by (metis length_greater_0_conv list.discI)
  next
    case (Inr v)
    then have "analyze_queries w sm md (Suc i) qs = Inl e"
      using Cons.prems(2) i by (auto split: sum.splits)
    moreover have "Suc i + length qs \<le> length sm" using Cons.prems(1) by simp
    ultimately obtain j where j: "j < length qs" "analyze_query w (sm ! (Suc i + j)) md (qs ! j) = Inl e"
      using Cons.IH by blast
    then have "Suc j < length (q # qs)" "analyze_query w (sm ! (i + Suc j)) md ((q # qs) ! Suc j) = Inl e"
      by simp_all
    then show ?thesis by blast
  qed
qed

lemma similarity_of_sound_queries:
  assumes "map_of (cache st) (cache_key w queries) = None
         \<or> map_of (cache st) (cache_key w queries) = Some (map (embed w) (clean_texts queries))"
    and "encode_texts w st queries True cid now1 = (Inr qe, st1)"
    and "calculate_similarity qe ce = Inr sm" and "nd_size qe \<noteq> 0" and "nd_size ce \<noteq> 0"
  shows "sm = map (\<lambda>t. text_row w t ce) (clean_texts queries)
       \<and> length sm = length (clean_texts queries)
       \<and> (list_all valid_query queries \<longrightarrow>
            length sm = length queries \<and> (\<forall>i<length queries. sm ! i = own_row w (queries ! i) ce))"
proof -
  have qe: "qe = map (embed w) (clean_texts queries)"
    using encode_texts_sound [OF assms(2,1)] .
  have sm: "sm = map (\<lambda>x. map (\<lambda>y. dot (normalize x) (normalize y)) ce) qe"
    using calculate_similarity_rows [OF assms(3)] assms(4,5) by simp
  have t: "sm = map (\<lambda>t. text_row w t ce) (clean_texts queries)"
    unfolding sm qe by (simp add: text_row_def comp_def)
  have l: "length sm = length (clean_texts queries)"
    unfolding sm qe by simp
  have o: "sm = map (\<lambda>q. own_row w q ce) queries" if "list_all valid_query queries"
    unfolding sm qe using clean_texts_valid [OF that] by (simp add: own_row_def comp_def)
  have "length sm = length queries \<and> (\<forall>i<length queries. sm ! i = own_row w (queries ! i) ce)"
    if "list_all valid_query queries"
    unfolding o [OF that] by simp
  then show ?thesis using t l by blast
qed

lemma rows_of_sound_queries:
  assumes "map_of (cache st) (cache_key w queries) = None
         \<or> map_of (cache st) (cache_key w queries) = Some (map (embed w) (clean_texts queries))"
    and "encode_texts w st queries True cid now1 = (Inr qe, st1)"
    and "calculate_similarity qe ce = Inr sm" and "nd_size qe \<noteq> 0" and "nd_size ce \<noteq> 0"
  shows "sm = map (\<lambda>t. text_row w t ce) (clean_texts queries)
       \<and> (list_all valid_query queries \<longrightarrow>
            length sm = length queries
          \<and> (\<forall>i<length queries. sm ! i = own_row w (queries ! i) ce)
          \<and> (\<forall>vs. analyze_queries w sm md 0 queries = Inr vs \<longrightarrow>
                (\<forall>i<length queries.
                    analyze_query w (own_row w (queries ! i) ce) md (queries ! i) = Inr (vs ! i)))
          \<and> (\<forall>e. analyze_queries w sm md 0 queries = Inl e \<longrightarrow>
                (\<exists>i<length queries.
                    analyze_query w (own_row w (queries ! i) ce) md (queries ! i) = Inl e)))
       \<and> (\<not> list_all valid_query queries \<longrightarrow>
            length sm < length queries
          \<and> (\<exists>e. analyze_queries w sm md 0 queries = Inl e
                \<and> (e = row_missing (length sm)
                    \<or> (\<exists>i<length sm. analyze_query w (sm ! i) md (queries ! i) = Inl e))))"
proof -
  note s = similarity_of_sound_queries [OF assms]
  have good: "length sm = length queries
          \<and> (\<forall>i<length queries. sm ! i = own_row w (queries ! i) ce)
          \<and> (\<forall>vs. analyze_queries w sm md 0 queries = Inr vs \<longrightarrow>
                (\<forall>i<length queries.
                    analyze_query w (own_row w (queries ! i) ce) md (queries ! i) = Inr (vs ! i)))
          \<and> (\<forall>e. analyze_queries w sm md 0 queries = Inl e \<longrightarrow>
                (\<exists>i<length queries.
                    analyze_query w (own_row w (queries ! i) ce) md (queries ! i) = Inl e))"
    if v: "list_all valid_query queries"
  proof -
    have l: "length sm = length queries" and r: "\<forall>i<length queries. sm ! i = own_row w (queries ! i) ce"
      using s v by blast+
    have a: "\<forall>i<length queries. analyze_query w (own_row w (queries ! i) ce) md (queries ! i) = Inr (vs ! i)"
      if "analyze_queries w sm md 0 queries = Inr vs" for vs
      using analyze_queries_rows [OF that] r by simp
    have b: "\<exists>i<length queries. analyze_query w (own_row w (queries ! i) ce) md (queries ! i) = Inl e"
      if q: "analyze_queries w sm md 0 queries = Inl e" for e
    proof -
      have "0 + length queries \<le> length sm" using l by simp
      then obtain j where "j < length queries" "analyze_query w (sm ! (0 + j)) md (queries ! j) = Inl e"
        using analyze_queries_error_origin q by blast
      then show ?thesis using r by auto
    qed
    show ?thesis using l r a b by blast
  qed
  have bad: "length sm < length queries
          \<and> (\<exists>e. analyze_queries w sm md 0 queries = Inl e
                \<and> (e = row_missing (length sm)
                    \<or> (\<exists>i<length sm. analyze_query w (sm ! i) md (queries ! i) = Inl e)))"
    if v: "\<not> list_all valid_query queries"
  proof -
    have "length sm = length (clean_texts queries)" using s by blast
    then have l: "length sm < length queries" using clean_texts_dropped [OF v] by simp
    then have "0 \<le> length sm" "length sm < 0 + length queries" by simp_all
    then obtain e where "analyze_queries w sm md 0 queries = Inl e"
      "e = row_missing (length sm)
        \<or> (\<exists>j. 0 + j < length sm \<and> analyze_query w (sm ! (0 + j)) md (queries ! j) = Inl e)"
      using analyze_queries_short [of 0 sm queries w md] by blast
    then have "\<exists>e. analyze_queries w sm md 0 queries = Inl e
                \<and> (e = row_missing (length sm)
                    \<or> (\<exists>i<length sm. analyze_query w (sm ! i) md (queries ! i) = Inl e))"
      by auto
    then show ?thesis using l by blast
  qed
  show ?thesis using s good bad by blast
qed

lemma verdicts_need_rows:
  assumes "analyze_content_relevance w st queries chunks cid now1 now2 = (Inr r, st')"
    and "query_analysis r \<noteq> []"
  shows "\<exists>qe st1 ce sm.
           encode_texts w st queries True cid now1 = (Inr qe, st1)
         \<and> calculate_similarity qe ce = Inr sm \<and> nd_size qe \<noteq> 0 \<and> nd_size ce \<noteq> 0
         \<and> analyze_queries w sm (snd (extract_content chunks)) 0 queries = Inr (query_analysis r)
         \<and> length (query_analysis r) = length queries"
proof -
  obtain qe st1 ce sm where e1: "encode_texts w st queries True cid now1 = (Inr qe, st1)"
    and cs: "calculate_similarity qe ce = Inr sm"
    and aq: "analyze_queries w sm (snd (extract_content chunks)) 0 queries = Inr (query_analysis r)"
    using analyze_report_verdicts [OF assms(1)] assms(2) by blast
  have l: "length (query_analysis r) = length queries"
    and ne: "queries \<noteq> [] \<longrightarrow> 0 + length queries \<le> length sm"
    using analyze_queries_rows [OF aq] by simp_all
  have "queries \<noteq> []" using l assms(2) by auto
  then have "sm \<noteq> []" using ne by auto
  then have "nd_size qe \<noteq> 0 \<and> nd_size ce \<noteq> 0"
    using calculate_similarity_rows [OF cs] by auto
  then show ?thesis using e1 cs aq l by blast
qed

lemma analyze_try_no_embeddings:
  "encode_texts w st queries True cid now1 = (Inr qe, st1) \<Longrightarrow>
   encode_texts w st1 (map PStr texts) True cid now2 = (Inr ce, st2) \<Longrightarrow>
   nd_size qe = 0 \<or> nd_size ce = 0 \<Longrightarrow>
   analyze_try w st queries texts md cid now1 now2 =
     (Inr (zero_report [''Failed to generate embeddings'']), st2)"
  by (auto simp: analyze_try_def)

lemma analyze_try_loop_raise:
  "encode_texts w st queries True cid now1 = (Inr qe, st1) \<Longrightarrow>
   encode_texts w st1 (map PStr texts) True cid now2 = (Inr ce, st2) \<Longrightarrow>
   nd_size qe \<noteq> 0 \<Longrightarrow> nd_size ce \<noteq> 0 \<Longrightarrow> calculate_similarity qe ce = Inr sm \<Longrightarrow>
   analyze_queries w sm md 0 queries = Inl e \<Longrightarrow>
   analyze_try w st queries texts md cid now1 now2 = (Inl e, st2)"
  by (simp add: analyze_try_def)

lemma dropped_queries_outcome:
  assumes "map_of (cache st) (cache_key w queries) = None
         \<or> map_of (cache st) (cache_key w queries) = Some (map (embed w) (clean_texts queries))"
    and v: "\<not> list_all valid_query queries" and c: "fst (extract_content chunks) \<noteq> []"
    and e1: "encode_texts w st queries True cid now1 = (Inr qe, st1)"
    and e2: "encode_texts w st1 (map PStr (fst (extract_content chunks))) True cid now2 = (Inr ce, st2)"
  shows "(clean_texts queries = [] \<longrightarrow>
            analyze_content_relevance w st queries chunks cid now1 now2 =
              (Inr (zero_report [''Failed to generate embeddings'']), st2))
       \<and> (nd_size qe \<noteq> 0 \<and> nd_size ce \<noteq> 0 \<and> calculate_similarity qe ce = Inr sm \<longrightarrow>
            (\<exists>e. analyze_content_relevance w st queries chunks cid now1 now2 = (Inr (error_report e), st2)
               \<and> (e = row_missing (length sm)
                   \<or> (\<exists>i<length sm. analyze_query w (sm ! i) (snd (extract_content chunks)) (queries ! i)
                                        = Inl e))))"
proof -
  have q: "queries \<noteq> []" using v by auto
  have ch: "chunks \<noteq> []" using c by auto
  note t = analyze_tried [OF q ch c, of w st cid now1 now2]
  have a: "analyze_content_relevance w st queries chunks cid now1 now2 =
              (Inr (zero_report [''Failed to generate embeddings'']), st2)"
    if "clean_texts queries = []"
  proof -
    have "qe = []" using encode_texts_sound [OF e1 assms(1)] that by simp
    then have "nd_size qe = 0 \<or> nd_size ce = 0" by (simp add: nd_size_def)
    then show ?thesis using t analyze_try_no_embeddings [OF e1 e2] by simp
  qed
  have b: "\<exists>e. analyze_content_relevance w st queries chunks cid now1 now2 = (Inr (error_report e), st2)
               \<and> (e = row_missing (length sm)
                   \<or> (\<exists>i<length sm. analyze_query w (sm ! i) (snd (extract_content chunks)) (queries ! i)
                                        = Inl e))"
    if z: "nd_size qe \<noteq> 0" "nd_size ce \<noteq> 0" and cs: "calculate_similarity qe ce = Inr sm"
  proof -
    obtain e where e: "analyze_queries w sm (snd (extract_content chunks)) 0 queries = Inl e"
      and o: "e = row_missing (length sm)
                \<or> (\<exists>i<length sm. analyze_query w (sm ! i) (snd (extract_content chunks)) (queries ! i) = Inl e)"
      using rows_of_sound_queries [OF assms(1) e1 cs z, of "snd (extract_content chunks)"] v by blast
    have "analyze_content_relevance w st queries chunks cid now1 now2 = (Inr (error_report e), st2)"
      using t analyze_try_loop_raise [OF e1 e2 z cs e] by simp
    then show ?thesis using o by blast
  qed
  show ?thesis using a b by blast
qed

text \<open>
  Claim C9, as amended. Let the cache hold nothing under the key of the query batch, or the
  vectors of that batch. Whenever the queries are encoded, with embeddings that are not
  empty, and the similarity matrix is computed, its rows are those of the queries that the
  cleaning keeps, in order. If every query is a string that is not empty after stripping,
  the matrix has one row for each query, row \<open>i\<close> is the row of query \<open>i\<close>, the verdict of
  index \<open>i\<close> is computed from it, and the loop over the queries fails only if the analysis
  of some query fails, never for want of a row; so every verdict of a returned report is
  computed from the row of its own query. If some query is not such a string, the cleaning
  drops it and no report with verdicts is returned. When some query is kept, the matrix
  has fewer rows than there are queries; the loop pairs row \<open>i\<close>, the row of the \<open>i\<close>-th
  query kept, with query \<open>i\<close>, and it raises: an IndexError for the row after the last
  one, unless the analysis of a row has raised before; the exception is returned as an
  error report. When no query is kept, no matrix is computed and the report
  \<^verbatim>\<open>Failed to generate embeddings\<close> is returned, with no error.
\<close>

theorem rows_aligned:
  assumes "map_of (cache st) (cache_key w queries) = None
         \<or> map_of (cache st) (cache_key w queries) = Some (map (embed w) (clean_texts queries))"
  shows "(encode_texts w st queries True cid now1 = (Inr qe, st1) \<and> calculate_similarity qe ce = Inr sm
          \<and> nd_size qe \<noteq> 0 \<and> nd_size ce \<noteq> 0 \<longrightarrow>
            sm = map (\<lambda>t. text_row w t ce) (clean_texts queries)
          \<and> (list_all valid_query queries \<longrightarrow>
                length sm = length queries
              \<and> (\<forall>i<length queries. sm ! i = own_row w (queries ! i) ce)
              \<and> (\<forall>vs. analyze_queries w sm md 0 queries = Inr vs \<longrightarrow>
                    (\<forall>i<length queries.
                        analyze_query w (own_row w (queries ! i) ce) md (queries ! i) = Inr (vs ! i)))
              \<and> (\<forall>e. analyze_queries w sm md 0 queries = Inl e \<longrightarrow>
                    (\<exists>i<length queries.
                        analyze_query w (own_row w (queries ! i) ce) md (queries ! i) = Inl e)))
          \<and> (\<not> list_all valid_query queries \<longrightarrow>
                length sm < length queries
              \<and> (\<exists>e. analyze_queries w sm md 0 queries = Inl e
                    \<and> (e = row_missing (length sm)
                        \<or> (\<exists>i<length sm. analyze_query w (sm ! i) md (queries ! i) = Inl e)))))
       \<and> (list_all valid_query queries \<longrightarrow>
            (\<forall>r st'. analyze_content_relevance w st queries chunks cid now1 now2 = (Inr r, st')
                     \<and> query_analysis r \<noteq> [] \<longrightarrow>
               (\<exists>ce'. length (query_analysis r) = length queries
                    \<and> (\<forall>i<length queries.
                          analyze_query w (own_row w (queries ! i) ce') (snd (extract_content chunks))
                             (queries ! i) = Inr (query_analysis r ! i)))))
       \<and> (\<not> list_all valid_query queries \<longrightarrow>
            (\<forall>r st'. analyze_content_relevance w st queries chunks cid now1 now2 = (Inr r, st') \<longrightarrow>
               query_analysis r = []))
       \<and> (\<not> list_all valid_query queries \<and> fst (extract_content chunks) \<noteq> []
          \<and> encode_texts w st queries True cid now1 = (Inr qe, st1)
          \<and> encode_texts w st1 (map PStr (fst (extract_content chunks))) True cid now2 = (Inr ce, st2) \<longrightarrow>
            (clean_texts queries = [] \<longrightarrow>
               analyze_content_relevance w st queries chunks cid now1 now2 =
                 (Inr (zero_report [''Failed to generate embeddings'']), st2))
          \<and> (nd_size qe \<noteq> 0 \<and> nd_size ce \<noteq> 0 \<and> calculate_similarity qe ce = Inr sm \<longrightarrow>
               (\<exists>e. analyze_content_relevance w st queries chunks cid now1 now2 = (Inr (error_report e), st2)
                  \<and> (e = row_missing (length sm)
                      \<or> (\<exists>i<length sm. analyze_query w (sm ! i) (snd (extract_content chunks)) (queries ! i)
                                           = Inl e)))))"
proof -
  have p1: "encode_texts w st queries True cid now1 = (Inr qe, st1) \<and> calculate_similarity qe ce = Inr sm
          \<and> nd_size qe \<noteq> 0 \<and> nd_size ce \<noteq> 0 \<longrightarrow>
            sm = map (\<lambda>t. text_row w t ce) (clean_texts queries)
          \<and> (list_all valid_query queries \<longrightarrow>
                length sm = length queries
              \<and> (\<forall>i<length queries. sm ! i = own_row w (queries ! i) ce)
              \<and> (\<forall>vs. analyze_queries w sm md 0 queries = Inr vs \<longrightarrow>
                    (\<forall>i<length queries.
                        analyze_query w (own_row w (queries ! i) ce) md (queries ! i) = Inr (vs ! i)))
              \<and> (\<forall>e. analyze_queries w sm md 0 queries = Inl e \<longrightarrow>
                    (\<exists>i<length queries.
                        analyze_query w (own_row w (queries ! i) ce) md (queries ! i) = Inl e)))
          \<and> (\<not> list_all valid_query queries \<longrightarrow>
                length sm < length queries
              \<and> (\<exists>e. analyze_queries w sm md 0 queries = Inl e
                    \<and> (e = row_missing (length sm)
                        \<or> (\<exists>i<length sm. analyze_query w (sm ! i) md (queries ! i) = Inl e))))"
  proof (intro impI, elim conjE)
    assume "encode_texts w st queries True cid now1 = (Inr qe, st1)" "calculate_similarity qe ce = Inr sm"
      "nd_size qe \<noteq> 0" "nd_size ce \<noteq> 0"
    then show "sm = map (\<lambda>t. text_row w t ce) (clean_texts queries)
          \<and> (list_all valid_query queries \<longrightarrow>
                length sm = length queries
              \<and> (\<forall>i<length queries. sm ! i = own_row w (queries ! i) ce)
              \<and> (\<forall>vs. analyze_queries w sm md 0 queries = Inr vs \<longrightarrow>
                    (\<forall>i<length queries.
                        analyze_query w (own_row w (queries ! i) ce) md (queries ! i) = Inr (vs ! i)))
              \<and> (\<forall>e. analyze_queries w sm md 0 queries = Inl e \<longrightarrow>
                    (\<exists>i<length queries.
                        analyze_query w (own_row w (queries ! i) ce) md (queries ! i) = Inl e)))
          \<and> (\<not> list_all valid_query queries \<longrightarrow>
                length sm < length queries
              \<and> (\<exists>e. analyze_queries w sm md 0 queries = Inl e
                    \<and> (e = row_missing (length sm)
                        \<or> (\<exists>i<length sm. analyze_query w (sm ! i) md (queries ! i) = Inl e))))"
      by (rule rows_of_sound_queries [OF assms])
  qed
  have p2: "\<exists>ce'. length (query_analysis r) = length queries
                    \<and> (\<forall>i<length queries.
                          analyze_query w (own_row w (queries ! i) ce') (snd (extract_content chunks))
                             (queries ! i) = Inr (query_analysis r ! i))"
    if v: "list_all valid_query queries"
      and a: "analyze_content_relevance w st queries chunks cid now1 now2 = (Inr r, st')"
      and n: "query_analysis r \<noteq> []" for r st'
  proof -
    obtain qe' st1' ce' sm' where e: "encode_texts w st queries True cid now1 = (Inr qe', st1')"
      and c: "calculate_similarity qe' ce' = Inr sm'" and z: "nd_size qe' \<noteq> 0" "nd_size ce' \<noteq> 0"
      and q: "analyze_queries w sm' (snd (extract_content chunks)) 0 queries = Inr (query_analysis r)"
      and l: "length (query_analysis r) = length queries"
      using verdicts_need_rows [OF a n] by blast
    have "\<forall>i<length queries.
            analyze_query w (own_row w (queries ! i) ce') (snd (extract_content chunks)) (queries ! i)
              = Inr (query_analysis r ! i)"
      using rows_of_sound_queries [OF assms e c z, of "snd (extract_content chunks)"] v q by blast
    then show ?thesis using l by blast
  qed
  have p3: "query_analysis r = []"
    if v: "\<not> list_all valid_query queries"
      and a: "analyze_content_relevance w st queries chunks cid now1 now2 = (Inr r, st')" for r st'
  proof (rule ccontr)
    assume n: "query_analysis r \<noteq> []"
    obtain qe' st1' ce' sm' where e: "encode_texts w st queries True cid now1 = (Inr qe', st1')"
      and c: "calculate_similarity qe' ce' = Inr sm'" and z: "nd_size qe' \<noteq> 0" "nd_size ce' \<noteq> 0"
      and q: "analyze_queries w sm' (snd (extract_content chunks)) 0 queries = Inr (query_analysis r)"
      using verdicts_need_rows [OF a n] by blast
    have "\<exists>e. analyze_queries w sm' (snd (extract_content chunks)) 0 queries = Inl e"
      using rows_of_sound_queries [OF assms e c z, of "snd (extract_content chunks)"] v by blast
    then show False using q by simp
  qed
  have p4: "\<not> list_all valid_query queries \<and> fst (extract_content chunks) \<noteq> []
          \<and> encode_texts w st queries True cid now1 = (Inr qe, st1)
          \<and> encode_texts w st1 (map PStr (fst (extract_content chunks))) True cid now2 = (Inr ce, st2) \<longrightarrow>
            (clean_texts queries = [] \<longrightarrow>
               analyze_content_relevance w st queries chunks cid now1 now2 =
                 (Inr (zero_report [''Failed to generate embeddings'']), st2))
          \<and> (nd_size qe \<noteq> 0 \<and> nd_size ce \<noteq> 0 \<and> calculate_similarity qe ce = Inr sm \<longrightarrow>
               (\<exists>e. analyze_content_relevance w st queries chunks cid now1 now2 = (Inr (error_report e), st2)
                  \<and> (e = row_missing (length sm)
                      \<or> (\<exists>i<length sm. analyze_query w (sm ! i) (snd (extract_content chunks)) (queries ! i)
                                           = Inl e))))"
  proof (intro impI, elim conjE)
    assume "\<not> list_all valid_query queries" "fst (extract_content chunks) \<noteq> []"
      "encode_texts w st queries True cid now1 = (Inr qe, st1)"
      "encode_texts w st1 (map PStr (fst (extract_content chunks))) True cid now2 = (Inr ce, st2)"
    then show "(clean_texts queries = [] \<longrightarrow>
               analyze_content_relevance w st queries chunks cid now1 now2 =
                 (Inr (zero_report [''Failed to generate embeddings'']), st2))
          \<and> (nd_size qe \<noteq> 0 \<and> nd_size ce \<noteq> 0 \<and> calculate_similarity qe ce = Inr sm \<longrightarrow>
               (\<exists>e. analyze_content_relevance w st queries chunks cid now1 now2 = (Inr (error_report e), st2)
                  \<and> (e = row_missing (length sm)
                      \<or> (\<exists>i<length sm. analyze_query w (sm ! i) (snd (extract_content chunks)) (queries ! i)
                                           = Inl e))))"
      by (rule dropped_queries_outcome [OF assms])
  qed
  have p23: "(list_all valid_query queries \<longrightarrow>
            (\<forall>r st'. analyze_content_relevance w st queries chunks cid now1 now2 = (Inr r, st')
                     \<and> query_analysis r \<noteq> [] \<longrightarrow>
               (\<exists>ce'. length (query_analysis r) = length queries
                    \<and> (\<forall>i<length queries.
                          analyze_query w (own_row w (queries ! i) ce') (snd (extract_content chunks))
                             (queries ! i) = Inr (query_analysis r ! i)))))
       \<and> (\<not> list_all valid_query queries \<longrightarrow>
            (\<forall>r st'. analyze_content_relevance w st queries chunks cid now1 now2 = (Inr r, st') \<longrightarrow>
               query_analysis r = []))"
    using p2 p3 by blast
  show ?thesis
    using p1 p23 p4 by (intro conjI) (elim conjE, assumption)+
qed

lemma char_of_49: "char_of (49 :: nat) = CHR ''1''"
  by code_simp

theorem rows_aligned_witness:
  "list_all valid_query [PStr ''What is X?'', PStr ''Why Y?'']
   \<and> fst (encode_texts world_two service0 [PStr ''What is X?'', PStr ''Why Y?''] True ''id'' 0) =
       Inr [[1, 0], [0, 1]]
   \<and> calculate_similarity [[1, 0], [0, 1]] [[3, 4]] = Inr [[3 / 5], [4 / 5]]
   \<and> own_row world_two (PStr ''What is X?'') [[3, 4]] = [3 / 5]
   \<and> own_row world_two (PStr ''Why Y?'') [[3, 4]] = [4 / 5]
   \<and> map max_similarity (query_analysis (projr (fst (analyze_content_relevance world_two service0
         [PStr ''What is X?'', PStr ''Why Y?''] [chunk0] ''id'' 0 1)))) = [3 / 5, 4 / 5]
   \<and> fst (analyze_content_relevance world0 service0 [PStr ''   '', PStr ''What is X?''] [chunk0] ''id'' 0 1) =
       Inr (error_report (row_missing 1))
   \<and> str_exn (row_missing 1) = ''index 1 is out of bounds for axis 0 with size 1''
   \<and> query_analysis (projr (fst (analyze_content_relevance world0 service0
         [PStr ''   '', PStr ''What is X?''] [chunk0] ''id'' 0 1))) = []
   \<and> fst (analyze_content_relevance world0 service0 [PStr ''   ''] [chunk0] ''id'' 0 1) =
       Inr (zero_report [''Failed to generate embeddings''])"
proof -
  let ?Q = "[PStr ''What is X?'', PStr ''Why Y?'']"
  let ?A = "analyze_content_relevance world0 service0 [PStr ''   '', PStr ''What is X?''] [chunk0] ''id'' 0 1"
  have v: "list_all valid_query ?Q"
    by (simp add: strip_def isspace_def)
  have e: "fst (encode_texts world_two service0 ?Q True ''id'' 0) = Inr [[1, 0], [0, 1]]"
    by (simp add: eval_defs world_two_def world0_def service0_def)
  have cs: "calculate_similarity [[1, 0], [0, 1]] [[3, 4]] = Inr [[3 / 5], [4 / 5]]"
    by (simp add: eval_defs sqrt_25)
  have z: "nd_size [[1, 0], [0, 1 :: real]] \<noteq> 0" "nd_size [[3, 4 :: real]] \<noteq> 0"
    by (simp_all add: nd_size_def)
  have h2: "map_of (cache service0) (cache_key world_two ?Q) = None
         \<or> map_of (cache service0) (cache_key world_two ?Q) =
             Some (map (embed world_two) (clean_texts ?Q))"
    by (simp add: service0_def)
  have run2: "encode_texts world_two service0 ?Q True ''id'' 0 =
      (Inr [[1, 0], [0, 1]], snd (encode_texts world_two service0 ?Q True ''id'' 0))"
    using e by (metis prod.collapse)
  have rows: "\<forall>i<length ?Q. [[3 / 5], [4 / 5]] ! i = own_row world_two (?Q ! i) [[3, 4]]"
    using rows_aligned [OF h2, where cid = "''id''" and ?now1.0 = 0 and ?now2.0 = 1
        and qe = "[[1, 0], [0, 1]]" and ce = "[[3, 4]]" and sm = "[[3 / 5], [4 / 5]]" and md = "[]"
        and ?st1.0 = "snd (encode_texts world_two service0 ?Q True ''id'' 0)"
        and ?st2.0 = service0 and chunks = "[chunk0]"] run2 cs z v
    by blast
  have r0: "own_row world_two (PStr ''What is X?'') [[3, 4]] = [3 / 5]"
    using rows by (auto dest: spec [of _ 0])
  have r1: "own_row world_two (PStr ''Why Y?'') [[3, 4]] = [4 / 5]"
    using rows by (auto dest: spec [of _ 1])
  have d4: "map max_similarity (query_analysis (projr (fst (analyze_content_relevance world_two service0
         ?Q [chunk0] ''id'' 0 1)))) = [3 / 5, 4 / 5]"
    by (simp add: eval_defs world_two_def world0_def service0_def chunk0_def sqrt_25 str_nat_digit)
  have d1: "fst ?A = Inr (error_report (row_missing 1))"
    by (simp add: eval_defs row_missing_def world0_def service0_def chunk0_def str_nat_digit)
  have d2: "str_exn (row_missing 1) = ''index 1 is out of bounds for axis 0 with size 1''"
    by (simp add: row_missing_def str_nat_digit char_of_49)
  have h: "map_of (cache service0) (cache_key world0 [PStr ''   '', PStr ''What is X?'']) = None
         \<or> map_of (cache service0) (cache_key world0 [PStr ''   '', PStr ''What is X?'']) =
             Some (map (embed world0) (clean_texts [PStr ''   '', PStr ''What is X?'']))"
    by (simp add: service0_def)
  have bad: "\<not> list_all valid_query [PStr ''   '', PStr ''What is X?'']"
    by (simp add: strip_def isspace_def)
  have "fst ?A = Inr (projr (fst ?A))" using d1 by simp
  then have run: "?A = (Inr (projr (fst ?A)), snd ?A)"
    by (metis prod.collapse)
  have d3: "query_analysis (projr (fst ?A)) = []"
    using rows_aligned [OF h, where chunks = "[chunk0]" and cid = "''id''" and ?now1.0 = 0 and ?now2.0 = 1
        and qe = "[]" and ce = "[]" and sm = "[]" and md = "[]" and ?st1.0 = service0
        and ?st2.0 = service0] bad run
    by blast
  have d5: "fst (analyze_content_relevance world0 service0 [PStr ''   ''] [chunk0] ''id'' 0 1) =
       Inr (zero_report [''Failed to generate embeddings''])"
    by (simp add: eval_defs world0_def service0_def chunk0_def)
  show ?thesis using v e cs r0 r1 d4 d1 d2 d3 d5 by blast
qed

text \<open>
  Claim C9 as stated fails in two places. When the key of the query batch is already in the
  cache for another batch, valid queries do not get their rows: whatever the hash function,
  there are a batch and a longer list of queries, all of them non-empty strings, with the
  same key; after the batch has been encoded, the queries are served its vectors, fewer
  rows than there are queries, and the analysis returns no verdict. And when every query is
  dropped, there is no matrix and the loop reads no row: for the single query of three
  spaces the encoding returns the empty batch and the analysis the report
  \<^verbatim>\<open>Failed to generate embeddings\<close>, which has no error.
\<close>

theorem valid_queries_short_matrix:
  "(\<forall>h. \<exists>a queries. list_all valid_query queries
       \<and> (\<exists>qe. fst (encode_texts (world0\<lparr>hash_tuple := h\<rparr>)
                     (snd (encode_texts (world0\<lparr>hash_tuple := h\<rparr>) service0 a True ''id'' 0))
                     queries True ''id'' 1) = Inr qe
               \<and> length qe < length queries
               \<and> (\<forall>ce sm. calculate_similarity qe ce = Inr sm \<longrightarrow> length sm < length queries))
       \<and> query_analysis (projr (fst (analyze_content_relevance (world0\<lparr>hash_tuple := h\<rparr>)
               (snd (encode_texts (world0\<lparr>hash_tuple := h\<rparr>) service0 a True ''id'' 0))
               queries [chunk0] ''id'' 1 2))) = [])
   \<and> fst (encode_texts world0 service0 [PStr ''   ''] True ''id'' 0) = Inr []
   \<and> fst (analyze_content_relevance world0 service0 [PStr ''   ''] [chunk0] ''id'' 0 1) =
       Inr (zero_report [''Failed to generate embeddings''])
   \<and> error (zero_report [''Failed to generate embeddings'']) = None"
proof -
  have collide: "\<exists>a queries. list_all valid_query queries
       \<and> (\<exists>qe. fst (encode_texts (world0\<lparr>hash_tuple := h\<rparr>)
                     (snd (encode_texts (world0\<lparr>hash_tuple := h\<rparr>) service0 a True ''id'' 0))
                     queries True ''id'' 1) = Inr qe
               \<and> length qe < length queries
               \<and> (\<forall>ce sm. calculate_similarity qe ce = Inr sm \<longrightarrow> length sm < length queries))
       \<and> query_analysis (projr (fst (analyze_content_relevance (world0\<lparr>hash_tuple := h\<rparr>)
               (snd (encode_texts (world0\<lparr>hash_tuple := h\<rparr>) service0 a True ''id'' 0))
               queries [chunk0] ''id'' 1 2))) = []" for h :: "string list \<Rightarrow> 64 word"
  proof -
    let ?w = "world0\<lparr>hash_tuple := h\<rparr>"
    obtain m n where mn: "m < n" "h (replicate (Suc m) ''a'') = h (replicate (Suc n) ''a'')"
      using hash_collision_ordered [of h] by blast
    let ?a = "replicate (Suc m) (PStr ''a'')"
    let ?b = "replicate (Suc n) (PStr ''a'')"
    let ?st = "snd (encode_texts ?w service0 ?a True ''id'' 0)"
    let ?qe = "replicate (Suc m) [1, 0 :: real]"
    let ?A = "analyze_content_relevance ?w ?st ?b [chunk0] ''id'' 1 2"
    note c = collision_serves_first [OF mn(2)]
    have valid: "list_all valid_query ?b"
      by (simp add: list_all_iff strip_def isspace_def)
    have e: "encode_texts ?w ?st ?b True ''id'' 1 =
               (Inr ?qe, ?st\<lparr>limiter := snd (is_allowed (limiter ?st) ''id'' 1)\<rparr>)"
      using c by simp
    have l: "length ?qe < length ?b" using mn(1) by simp
    have short: "length sm < length ?b" if "calculate_similarity ?qe ce = Inr sm" for ce sm
    proof -
      have "sm = [] \<or> sm = map (\<lambda>x. map (\<lambda>y. dot (normalize x) (normalize y)) ce) ?qe"
        using calculate_similarity_rows [OF that] by blast
      then have "length sm \<le> length ?qe" by auto
      then show ?thesis using l by simp
    qed
    have none: "query_analysis (projr (fst ?A)) = []"
    proof (rule ccontr)
      assume n: "query_analysis (projr (fst ?A)) \<noteq> []"
      obtain r where r: "fst ?A = Inr r" using analyze_returns by blast
      then have run: "?A = (Inr (projr (fst ?A)), snd ?A)"
        by (metis prod.collapse sum.sel(2))
      obtain qe' st1 ce sm where e': "encode_texts ?w ?st ?b True ''id'' 1 = (Inr qe', st1)"
        and cs: "calculate_similarity qe' ce = Inr sm"
        and aq: "analyze_queries ?w sm (snd (extract_content [chunk0])) 0 ?b
                   = Inr (query_analysis (projr (fst ?A)))"
        using verdicts_need_rows [OF run n] by blast
      have "qe' = ?qe" using e e' by simp
      then have "length sm < length ?b" using short cs by blast
      moreover have "0 + length ?b \<le> length sm"
        using analyze_queries_rows [OF aq] by simp
      ultimately show False by simp
    qed
    have "\<exists>qe. fst (encode_texts ?w ?st ?b True ''id'' 1) = Inr qe
                 \<and> length qe < length ?b
                 \<and> (\<forall>ce sm. calculate_similarity qe ce = Inr sm \<longrightarrow> length sm < length ?b)"
      using e l short by (intro exI [of _ ?qe]) simp
    then show ?thesis
      using valid none by (intro exI [of _ ?a] exI [of _ ?b]) (intro conjI)
  qed
  have d1: "fst (encode_texts world0 service0 [PStr ''   ''] True ''id'' 0) = Inr []"
    by (simp add: eval_defs world0_def service0_def)
  have d2: "fst (analyze_content_relevance world0 service0 [PStr ''   ''] [chunk0] ''id'' 0 1) =
       Inr (zero_report [''Failed to generate embeddings''])"
    by (simp add: eval_defs world0_def service0_def chunk0_def)
  have d3: "error (zero_report [''Failed to generate embeddings'']) = None"
    by (simp add: zero_report_def)
  show ?thesis using collide d1 d2 d3 by blast
qed

end
